theory Spec2Isabelle
  imports Main "HOL-Library.AList" "HOL-Library.Sublist"
begin

section \<open>The frame-tree and execution-context manager\<close>

text \<open>
  A shallow embedding of \<^verbatim>\<open>FrameManager\<close> and \<^verbatim>\<open>Frame\<close> (src/unnamed/part_002).
  Frames, Worlds and execution contexts are JavaScript objects that are shared and
  mutated through references, so the model keeps one store per class (a function from
  references to records, with a counter for the next reference to allocate) next to the
  private fields of the manager.  A \<^verbatim>\<open>Map\<close> is an association list in insertion order
  (\<open>AList.update\<close> overwrites in place or appends, \<open>AList.delete\<close> removes the key), a
  \<^verbatim>\<open>Set\<close> of objects is a list without repetition in insertion order.  A thrown value is
  the left summand of the result.  The recursion of \<^verbatim>\<open>#removeFramesRecursively\<close> follows
  the child links of the store and is bounded by fuel: \<open>None\<close> stands for a call that has
  not returned within the fuel given.
\<close>

subsection \<open>Values\<close>

type_synonym frame_ref = nat
type_synonym world_ref = nat
type_synonym context_ref = nat

text \<open>
  Modelled from the spec: the class \<^verbatim>\<open>CDPSession\<close> is not among the sources.  The spec
  describes a session channel as "identified by a session id" with "a stable per-session
  identifier", so a session object is modelled by the identifier that \<^verbatim>\<open>session.id()\<close>
  returns; \<^verbatim>\<open>===\<close> on sessions is equality of these values.
\<close>

datatype CDPSession = CDPSession (session_id: string)

text \<open>
  A value that is thrown or that rejects a promise: an object that \<^verbatim>\<open>isErrorLike\<close>
  accepts (it has a message), or any other value.  \<^verbatim>\<open>assert(value, message)\<close> of
  \<^verbatim>\<open>./assert\<close> throws an \<^verbatim>\<open>Error\<close> with the message (empty when none is given).
\<close>

datatype thrown = JSError (message: string) | NotErrorLike string

definition isErrorLike :: "thrown \<Rightarrow> bool" where
  "isErrorLike e = (case e of JSError m \<Rightarrow> True | NotErrorLike v \<Rightarrow> False)"

text \<open>\<^verbatim>\<open>String.prototype.includes\<close>: the argument occurs as a contiguous substring.\<close>

definition string_includes :: "string \<Rightarrow> string \<Rightarrow> bool" where
  "string_includes s sub = sublist sub s"

text \<open>Truthiness of an optional string: \<^verbatim>\<open>undefined\<close> and the empty string are falsy.\<close>

definition truthy :: "string option \<Rightarrow> bool" where
  "truthy v = (case v of None \<Rightarrow> False | Some s \<Rightarrow> s \<noteq> [])"

text \<open>
  The template literal \<^verbatim>\<open>`${n}`\<close> of an integer: decimal digits, with a minus sign for a
  negative number (context ids are protocol integers).
\<close>

fun digits :: "nat \<Rightarrow> string" where
  "digits n = (if n < 10 then [char_of (48 + n)] else digits (n div 10) @ [char_of (48 + n mod 10)])"

declare digits.simps [simp del]

definition number_to_string :: "int \<Rightarrow> string" where
  "number_to_string i = (if i < 0 then CHR ''-'' # digits (nat (- i)) else digits (nat i))"

definition UTILITY_WORLD_NAME :: string where
  "UTILITY_WORLD_NAME = ''__puppeteer_utility_world__''"

text \<open>\<^verbatim>\<open>Protocol.Page.Frame\<close>, the fields the manager reads.\<close>

record FramePayload =
  payload_id :: string
  payload_parentId :: "string option"
  payload_name :: "string option"
  payload_url :: string
  payload_urlFragment :: "string option"

text \<open>\<^verbatim>\<open>Protocol.Page.FrameTree\<close>; an absent \<^verbatim>\<open>childFrames\<close> is the empty list.\<close>

datatype FrameTree = FrameTree (tree_frame: FramePayload) (tree_childFrames: "FrameTree list")

text \<open>
  \<^verbatim>\<open>Protocol.Runtime.ExecutionContextDescription\<close>.  \<open>aux_frameId\<close> is \<open>None\<close> when
  \<^verbatim>\<open>auxData.frameId\<close> is not a string; \<open>aux_isDefault\<close> is \<^verbatim>\<open>Boolean(auxData.isDefault)\<close>.
\<close>

record AuxData =
  aux_frameId :: "string option"
  aux_isDefault :: bool

record ExecutionContextDescription =
  description_id :: int
  description_name :: string
  description_auxData :: "AuxData option"

datatype FrameDetachedEventReason = Remove | Swap

subsection \<open>Objects\<close>

text \<open>
  \<^verbatim>\<open>class Frame\<close>.  The loader id, the started-loading flag and the lifecycle-event set
  are left out: only the lifecycle handlers touch them, and they touch nothing else.
\<close>

record Frame =
  parentFrame :: "frame_ref option"
  frame_url :: string
  frame_detached :: bool
  frame_client :: CDPSession
  frame_id :: string
  frame_name :: "string option"
  mainWorld :: world_ref
  secondaryWorld :: world_ref
  childFrames :: "frame_ref list"

text \<open>
  Modelled from the spec: the class \<^verbatim>\<open>DOMWorld\<close> is not among the sources.  The spec
  gives a World "a reference to its owning Frame" and "at most one currently bound
  Execution Context (or none)", with the invariant that "binding a context to a World
  that already holds a live context is only valid when the old context has first been
  cleared"; a violated invariant is fatal and aborts the calling operation.  So
  \<^verbatim>\<open>_setContext(context)\<close> binds the context to a World that holds none and throws on a
  World that holds one; \<^verbatim>\<open>_setContext(null)\<close> clears the World and never throws;
  \<^verbatim>\<open>_hasContext()\<close> tells whether a context is bound and \<^verbatim>\<open>_detach()\<close> marks the World
  detached.
\<close>

record DOMWorld =
  world_frame :: frame_ref
  world_context :: "context_ref option"
  world_detached :: bool

text \<open>
  Modelled from the spec: the class \<^verbatim>\<open>ExecutionContext\<close> is not among the sources.  Its
  constructor stores the three arguments the manager passes: the client, the payload and
  the World (or none).
\<close>

record ExecutionContext =
  context_client :: CDPSession
  context_payload :: ExecutionContextDescription
  context_world :: "world_ref option"

text \<open>What \<^verbatim>\<open>this.emit\<close> hands to the listeners, in the order of the calls.\<close>

datatype emitted_event =
    FrameAttached frame_ref
  | FrameNavigated frame_ref
  | FrameDetached frame_ref
  | FrameSwapped "frame_ref option"

text \<open>
  The private fields of \<^verbatim>\<open>FrameManager\<close> (\<open>fm_\<close>), the three object stores and the
  log of emitted events.  The page, the network manager, the timeout settings and the
  set of isolated-world keys are left out: the operations below do not read them.
\<close>

record state =
  fm_frames :: "(string \<times> frame_ref) list"
  fm_contextIdToContext :: "(string \<times> context_ref) list"
  fm_mainFrame :: "frame_ref option"
  fm_client :: CDPSession
  frame_store :: "frame_ref \<Rightarrow> Frame"
  frame_next :: nat
  world_store :: "world_ref \<Rightarrow> DOMWorld"
  world_next :: nat
  context_store :: "context_ref \<Rightarrow> ExecutionContext"
  context_next :: nat
  emitted :: "emitted_event list"

definition emit :: "emitted_event \<Rightarrow> state \<Rightarrow> state" where
  "emit e st = st\<lparr>emitted := emitted st @ [e]\<rparr>"

definition update_frame :: "frame_ref \<Rightarrow> (Frame \<Rightarrow> Frame) \<Rightarrow> state \<Rightarrow> state" where
  "update_frame r g st = st\<lparr>frame_store := (frame_store st)(r := g (frame_store st r))\<rparr>"

definition update_world :: "world_ref \<Rightarrow> (DOMWorld \<Rightarrow> DOMWorld) \<Rightarrow> state \<Rightarrow> state" where
  "update_world w g st = st\<lparr>world_store := (world_store st)(w := g (world_store st w))\<rparr>"

subsection \<open>World\<close>

definition new_DOMWorld :: "frame_ref \<Rightarrow> state \<Rightarrow> world_ref \<times> state" where
  "new_DOMWorld r st =
     (world_next st,
      st\<lparr>world_store := (world_store st)(world_next st :=
            \<lparr>world_frame = r, world_context = None, world_detached = False\<rparr>),
         world_next := Suc (world_next st)\<rparr>)"

definition DOMWorld_hasContext :: "world_ref \<Rightarrow> state \<Rightarrow> bool" where
  "DOMWorld_hasContext w st = (world_context (world_store st w) \<noteq> None)"

text \<open>
  Modelled from the spec: \<^verbatim>\<open>_setContext\<close> called with a context.  The error is the one
  of the assertion of the World.
\<close>

definition DOMWorld_setContext :: "world_ref \<Rightarrow> context_ref \<Rightarrow> state \<Rightarrow> thrown + state" where
  "DOMWorld_setContext w c st =
     (if DOMWorld_hasContext w st then Inl (JSError ''Execution Context has already been set.'')
      else Inr (update_world w (\<lambda>x. x\<lparr>world_context := Some c\<rparr>) st))"

text \<open>Modelled from the spec: \<^verbatim>\<open>_setContext\<close> called with \<^verbatim>\<open>null\<close>.\<close>

definition DOMWorld_setContext_null :: "world_ref \<Rightarrow> state \<Rightarrow> state" where
  "DOMWorld_setContext_null w st = update_world w (\<lambda>x. x\<lparr>world_context := None\<rparr>) st"

definition DOMWorld_detach :: "world_ref \<Rightarrow> state \<Rightarrow> state" where
  "DOMWorld_detach w st = update_world w (\<lambda>x. x\<lparr>world_detached := True\<rparr>) st"

subsection \<open>Frame\<close>

definition updateClient :: "frame_ref \<Rightarrow> CDPSession \<Rightarrow> state \<Rightarrow> state" where
  "updateClient r c st =
     (let st0 = update_frame r (\<lambda>f. f\<lparr>frame_client := c\<rparr>) st;
          (m, st1) = new_DOMWorld r st0;
          st2 = update_frame r (\<lambda>f. f\<lparr>mainWorld := m\<rparr>) st1;
          (s, st3) = new_DOMWorld r st2
      in update_frame r (\<lambda>f. f\<lparr>secondaryWorld := s\<rparr>) st3)"

text \<open>
  The constructor.  The client and the two Worlds have no value until \<^verbatim>\<open>_updateClient\<close>
  assigns them at the end of the constructor; the record holds the client argument and
  the reference 0 until then.
\<close>

definition new_Frame :: "frame_ref option \<Rightarrow> string \<Rightarrow> CDPSession \<Rightarrow> state \<Rightarrow> frame_ref \<times> state" where
  "new_Frame parent frameId c st =
     (let r = frame_next st;
          st1 = st\<lparr>frame_store := (frame_store st)(r :=
                  \<lparr>parentFrame = parent, frame_url = [], frame_detached = False,
                   frame_client = c, frame_id = frameId, frame_name = None,
                   mainWorld = 0, secondaryWorld = 0, childFrames = []\<rparr>),
                 frame_next := Suc r\<rparr>;
          st2 = (case parent of
                   None \<Rightarrow> st1
                 | Some p \<Rightarrow> update_frame p (\<lambda>f. f\<lparr>childFrames :=
                     (if r \<in> set (childFrames f) then childFrames f else childFrames f @ [r])\<rparr>) st1)
      in (r, updateClient r c st2))"

definition isOOPFrame :: "frame_ref \<Rightarrow> state \<Rightarrow> bool" where
  "isOOPFrame r st = (frame_client (frame_store st r) \<noteq> fm_client st)"

definition navigated :: "frame_ref \<Rightarrow> FramePayload \<Rightarrow> state \<Rightarrow> state" where
  "navigated r p st =
     update_frame r (\<lambda>f. f\<lparr>frame_name := payload_name p,
        frame_url := payload_url p @ (if truthy (payload_urlFragment p) then the (payload_urlFragment p) else [])\<rparr>) st"

definition Frame_detach :: "frame_ref \<Rightarrow> state \<Rightarrow> state" where
  "Frame_detach r st =
     (let st1 = update_frame r (\<lambda>f. f\<lparr>frame_detached := True\<rparr>) st;
          st2 = DOMWorld_detach (mainWorld (frame_store st1 r)) st1;
          st3 = DOMWorld_detach (secondaryWorld (frame_store st2 r)) st2;
          st4 = (case parentFrame (frame_store st3 r) of
                   None \<Rightarrow> st3
                 | Some p \<Rightarrow> update_frame p (\<lambda>f. f\<lparr>childFrames := removeAll r (childFrames f)\<rparr>) st3)
      in update_frame r (\<lambda>f. f\<lparr>parentFrame := None\<rparr>) st4)"

subsection \<open>FrameManager: the frame tree\<close>

definition mainFrame :: "state \<Rightarrow> thrown + frame_ref" where
  "mainFrame st =
     (case fm_mainFrame st of
        None \<Rightarrow> Inl (JSError ''Requesting main frame too early!'')
      | Some r \<Rightarrow> Inr r)"

definition frame :: "string \<Rightarrow> state \<Rightarrow> frame_ref option" where
  "frame frameId st = map_of (fm_frames st) frameId"

definition onFrameAttached :: "CDPSession \<Rightarrow> string \<Rightarrow> string option \<Rightarrow> state \<Rightarrow> thrown + state" where
  "onFrameAttached session frameId parentFrameId st =
     (case map_of (fm_frames st) frameId of
        Some r \<Rightarrow> Inr (if isOOPFrame r st then updateClient r session st else st)
      | None \<Rightarrow>
          if \<not> truthy parentFrameId then Inl (JSError [])
          else (case map_of (fm_frames st) (the parentFrameId) of
                  None \<Rightarrow> Inl (JSError [])
                | Some parent \<Rightarrow>
                    (let (r, st1) = new_Frame (Some parent) frameId session st;
                         st2 = st1\<lparr>fm_frames := AList.update (frame_id (frame_store st1 r)) r (fm_frames st1)\<rparr>
                     in Inr (emit (FrameAttached r) st2))))"

primrec for_each :: "('a \<Rightarrow> 's \<Rightarrow> 's option) \<Rightarrow> 'a list \<Rightarrow> 's \<Rightarrow> 's option" where
  "for_each body [] st = Some st"
| "for_each body (x # xs) st = (case body x st of None \<Rightarrow> None | Some st' \<Rightarrow> for_each body xs st')"

text \<open>The three statements of \<^verbatim>\<open>#removeFramesRecursively\<close> after its loop.\<close>

definition detach_and_delete :: "frame_ref \<Rightarrow> state \<Rightarrow> state" where
  "detach_and_delete r st =
     (let st1 = Frame_detach r st;
          st2 = st1\<lparr>fm_frames := AList.delete (frame_id (frame_store st1 r)) (fm_frames st1)\<rparr>
      in emit (FrameDetached r) st2)"

fun removeFramesRecursively :: "nat \<Rightarrow> frame_ref \<Rightarrow> state \<Rightarrow> state option" where
  "removeFramesRecursively 0 r st = None"
| "removeFramesRecursively (Suc n) r st =
     (case for_each (\<lambda>child s. removeFramesRecursively n child s) (childFrames (frame_store st r)) st of
        None \<Rightarrow> None
      | Some st1 \<Rightarrow> Some (detach_and_delete r st1))"

definition onFrameDetached :: "nat \<Rightarrow> string \<Rightarrow> FrameDetachedEventReason \<Rightarrow> state \<Rightarrow> state option" where
  "onFrameDetached n frameId reason st =
     (case reason of
        Remove \<Rightarrow>
          (case map_of (fm_frames st) frameId of
             None \<Rightarrow> Some st
           | Some r \<Rightarrow> removeFramesRecursively n r st)
      | Swap \<Rightarrow> Some (emit (FrameSwapped (map_of (fm_frames st) frameId)) st))"

definition onFrameNavigated :: "nat \<Rightarrow> FramePayload \<Rightarrow> state \<Rightarrow> (thrown + state) option" where
  "onFrameNavigated n p st =
     (let isMainFrame = \<not> truthy (payload_parentId p);
          frame0 = (if isMainFrame then fm_mainFrame st else map_of (fm_frames st) (payload_id p))
      in if \<not> (isMainFrame \<or> frame0 \<noteq> None)
         then Some (Inl (JSError ''We either navigate top level or have old version of the navigated frame''))
         else
           (case (case frame0 of
                    None \<Rightarrow> Some st
                  | Some r \<Rightarrow> for_each (\<lambda>child s. removeFramesRecursively n child s)
                               (childFrames (frame_store st r)) st) of
              None \<Rightarrow> None
            | Some st1 \<Rightarrow>
                (let (frame1, st2) =
                       (if isMainFrame then
                          (let (r, s) =
                                 (case frame0 of
                                    Some r \<Rightarrow>
                                      (r, update_frame r (\<lambda>f. f\<lparr>frame_id := payload_id p\<rparr>)
                                            (st1\<lparr>fm_frames := AList.delete (frame_id (frame_store st1 r)) (fm_frames st1)\<rparr>))
                                  | None \<Rightarrow> new_Frame None (payload_id p) (fm_client st1) st1)
                           in (Some r, s\<lparr>fm_frames := AList.update (payload_id p) r (fm_frames s),
                                        fm_mainFrame := Some r\<rparr>))
                        else (frame0, st1))
                 in (case frame1 of
                       None \<Rightarrow> Some (Inl (JSError []))
                     | Some r \<Rightarrow> Some (Inr (emit (FrameNavigated r) (navigated r p st2)))))))"

subsection \<open>FrameManager: execution contexts\<close>

definition context_key :: "CDPSession \<Rightarrow> int \<Rightarrow> string" where
  "context_key session contextId = session_id session @ '':'' @ number_to_string contextId"

definition new_ExecutionContext ::
    "CDPSession \<Rightarrow> ExecutionContextDescription \<Rightarrow> world_ref option \<Rightarrow> state \<Rightarrow> context_ref \<times> state" where
  "new_ExecutionContext c payload world st =
     (context_next st,
      st\<lparr>context_store := (context_store st)(context_next st :=
            \<lparr>context_client = c, context_payload = payload, context_world = world\<rparr>),
         context_next := Suc (context_next st)\<rparr>)"

text \<open>
  The first lines of \<^verbatim>\<open>#onExecutionContextCreated\<close>: the tracked frame that
  \<^verbatim>\<open>auxData.frameId\<close> names, if any, and the guard "only care about execution contexts
  created for the current session".
\<close>

definition context_frame :: "ExecutionContextDescription \<Rightarrow> state \<Rightarrow> frame_ref option" where
  "context_frame contextPayload st =
     (case description_auxData contextPayload of
        None \<Rightarrow> None
      | Some aux \<Rightarrow> (case aux_frameId aux of None \<Rightarrow> None | Some i \<Rightarrow> map_of (fm_frames st) i))"

definition other_session_frame :: "ExecutionContextDescription \<Rightarrow> CDPSession \<Rightarrow> state \<Rightarrow> bool" where
  "other_session_frame contextPayload session st =
     (case context_frame contextPayload st of
        None \<Rightarrow> False
      | Some r \<Rightarrow> frame_client (frame_store st r) \<noteq> session)"

definition isDefault :: "ExecutionContextDescription \<Rightarrow> bool" where
  "isDefault contextPayload =
     (case description_auxData contextPayload of None \<Rightarrow> False | Some aux \<Rightarrow> aux_isDefault aux)"

text \<open>The variable \<^verbatim>\<open>world\<close> of the handler: the World the new context is to be bound to.\<close>

definition chosen_world :: "ExecutionContextDescription \<Rightarrow> state \<Rightarrow> world_ref option" where
  "chosen_world contextPayload st =
     (case context_frame contextPayload st of
        None \<Rightarrow> None
      | Some r \<Rightarrow>
          if isDefault contextPayload then Some (mainWorld (frame_store st r))
          else if description_name contextPayload = UTILITY_WORLD_NAME
                  \<and> \<not> DOMWorld_hasContext (secondaryWorld (frame_store st r)) st
          then Some (secondaryWorld (frame_store st r))
          else None)"

text \<open>
  \<^verbatim>\<open>#onExecutionContextCreated\<close>.  When \<^verbatim>\<open>world._setContext(context)\<close> throws, the handler
  is left before the index is written; the context object it has constructed is
  referenced by nothing, and the manager is in the state the handler was called in.
\<close>

definition onExecutionContextCreated ::
    "ExecutionContextDescription \<Rightarrow> CDPSession \<Rightarrow> state \<Rightarrow> thrown + state" where
  "onExecutionContextCreated contextPayload session st =
     (if other_session_frame contextPayload session st then Inr st
      else
        (let frame0 = context_frame contextPayload st;
             world = chosen_world contextPayload st;
             (context, st1) = new_ExecutionContext
                 (case frame0 of None \<Rightarrow> fm_client st | Some r \<Rightarrow> frame_client (frame_store st r))
                 contextPayload world st;
             key = context_key session (description_id contextPayload)
         in case (case world of None \<Rightarrow> Inr st1 | Some w \<Rightarrow> DOMWorld_setContext w context st1) of
              Inl e \<Rightarrow> Inl e
            | Inr st2 \<Rightarrow>
                Inr (st2\<lparr>fm_contextIdToContext := AList.update key context (fm_contextIdToContext st2)\<rparr>)))"

definition onExecutionContextDestroyed :: "int \<Rightarrow> CDPSession \<Rightarrow> state \<Rightarrow> state" where
  "onExecutionContextDestroyed executionContextId session st =
     (let key = context_key session executionContextId
      in case map_of (fm_contextIdToContext st) key of
           None \<Rightarrow> st
         | Some context \<Rightarrow>
             (let st1 = st\<lparr>fm_contextIdToContext := AList.delete key (fm_contextIdToContext st)\<rparr>
              in case context_world (context_store st1 context) of
                   None \<Rightarrow> st1
                 | Some w \<Rightarrow> DOMWorld_setContext_null w st1))"

fun clear_contexts :: "CDPSession \<Rightarrow> (string \<times> context_ref) list \<Rightarrow> state \<Rightarrow> state" where
  "clear_contexts session [] st = st"
| "clear_contexts session ((key, context) # entries) st =
     (if context_client (context_store st context) \<noteq> session
      then clear_contexts session entries st
      else
        (let st1 = (case context_world (context_store st context) of
                      None \<Rightarrow> st
                    | Some w \<Rightarrow> DOMWorld_setContext_null w st)
         in clear_contexts session entries
              (st1\<lparr>fm_contextIdToContext := AList.delete key (fm_contextIdToContext st1)\<rparr>)))"

definition onExecutionContextsCleared :: "CDPSession \<Rightarrow> state \<Rightarrow> state" where
  "onExecutionContextsCleared session st = clear_contexts session (fm_contextIdToContext st) st"

text \<open>
  \<^verbatim>\<open>executionContextById\<close>; where the caller gives no session, the argument is the
  manager's client.
\<close>

definition executionContextById :: "int \<Rightarrow> CDPSession \<Rightarrow> state \<Rightarrow> thrown + context_ref" where
  "executionContextById contextId session st =
     (case map_of (fm_contextIdToContext st) (context_key session contextId) of
        None \<Rightarrow> Inl (JSError (''INTERNAL ERROR: missing context with id = '' @ number_to_string contextId))
      | Some context \<Rightarrow> Inr context)"

text \<open>The manager right after its constructor, with empty stores.\<close>

definition new_FrameManager :: "CDPSession \<Rightarrow> state" where
  "new_FrameManager c =
     \<lparr>fm_frames = [], fm_contextIdToContext = [], fm_mainFrame = None, fm_client = c,
      frame_store = (\<lambda>r. \<lparr>parentFrame = None, frame_url = [], frame_detached = False,
                          frame_client = c, frame_id = [], frame_name = None,
                          mainWorld = 0, secondaryWorld = 0, childFrames = []\<rparr>),
      frame_next = 0,
      world_store = (\<lambda>w. \<lparr>world_frame = 0, world_context = None, world_detached = False\<rparr>),
      world_next = 0,
      context_store = (\<lambda>x. \<lparr>context_client = c,
                            context_payload = \<lparr>description_id = 0, description_name = [], description_auxData = None\<rparr>,
                            context_world = None\<rparr>),
      context_next = 0,
      emitted = []\<rparr>"

subsection \<open>FrameManager: initialization\<close>

text \<open>
  \<^verbatim>\<open>#handleFrameTree\<close>.  The result is \<open>None\<close> when the fuel of a removal runs out;
  otherwise it is the value thrown, if any, with the state the manager is left in.  The
  two handlers throw from an assertion that precedes their first assignment (the second
  assertion of \<^verbatim>\<open>#onFrameNavigated\<close> never fails, \<open>onFrameNavigated_throws\<close>), so the
  state at the throw is the state they were called in.
\<close>

fun handleFrameTree :: "nat \<Rightarrow> CDPSession \<Rightarrow> FrameTree \<Rightarrow> state \<Rightarrow> (thrown option \<times> state) option"
  and handleFrameTrees :: "nat \<Rightarrow> CDPSession \<Rightarrow> FrameTree list \<Rightarrow> state \<Rightarrow> (thrown option \<times> state) option" where
  "handleFrameTree n session (FrameTree payload children) st =
     (case (if truthy (payload_parentId payload)
            then onFrameAttached session (payload_id payload) (payload_parentId payload) st
            else Inr st) of
        Inl e \<Rightarrow> Some (Some e, st)
      | Inr st1 \<Rightarrow>
          (case onFrameNavigated n payload st1 of
             None \<Rightarrow> None
           | Some (Inl e) \<Rightarrow> Some (Some e, st1)
           | Some (Inr st2) \<Rightarrow> handleFrameTrees n session children st2))"
| "handleFrameTrees n session [] st = Some (None, st)"
| "handleFrameTrees n session (t # ts) st =
     (case handleFrameTree n session t st of
        None \<Rightarrow> None
      | Some (Some e, st1) \<Rightarrow> Some (Some e, st1)
      | Some (None, st1) \<Rightarrow> handleFrameTrees n session ts st1)"

text \<open>
  The \<^verbatim>\<open>catch\<close> block of \<^verbatim>\<open>initialize\<close>: \<open>None\<close> when the error is swallowed and the
  method returns, the error when it is thrown again.
\<close>

definition catch_closed :: "thrown \<Rightarrow> thrown option" where
  "catch_closed error =
     (if isErrorLike error
         \<and> (string_includes (message error) ''Target closed''
              \<or> string_includes (message error) ''Session closed'')
      then None else Some error)"

text \<open>
  \<^verbatim>\<open>initialize\<close>.  Each \<^verbatim>\<open>await Promise.all([...])\<close> yields the results of its commands or
  throws the reason of the rejection that settled it; the two outcomes are arguments:
  \<open>enabled\<close> for \<^verbatim>\<open>Page.enable\<close>, \<^verbatim>\<open>Page.getFrameTree\<close> (whose frame tree it carries) and
  \<^verbatim>\<open>Target.setAutoAttach\<close>; \<open>started\<close> for \<^verbatim>\<open>Page.setLifecycleEventsEnabled\<close>,
  \<^verbatim>\<open>Runtime.enable\<close> with the isolated world, and the network manager.  The result is the
  value thrown to the caller, if any, and the state.
\<close>

definition initialize ::
    "nat \<Rightarrow> CDPSession \<Rightarrow> thrown + FrameTree \<Rightarrow> thrown + unit \<Rightarrow> state \<Rightarrow> (thrown option \<times> state) option" where
  "initialize n client enabled started st =
     (case enabled of
        Inl error \<Rightarrow> Some (catch_closed error, st)
      | Inr frameTree \<Rightarrow>
          (case handleFrameTree n client frameTree st of
             None \<Rightarrow> None
           | Some (Some error, st1) \<Rightarrow> Some (catch_closed error, st1)
           | Some (None, st1) \<Rightarrow>
               (case started of
                  Inl error \<Rightarrow> Some (catch_closed error, st1)
                | Inr u \<Rightarrow> Some (None, st1))))"

subsection \<open>FrameManager: navigation\<close>

text \<open>
  Modelled from the spec: the class \<^verbatim>\<open>LifecycleWatcher\<close> is not among the sources.  In
  the spec a watcher ends in one of four outcomes: same-document resolution,
  new-document resolution, termination (the frame is detached or swapped) and timeout
  (the deadline elapses first).  The promise \<^verbatim>\<open>timeoutOrTerminationPromise\<close> resolves with
  the error of a timeout or of a termination; the two navigation promises resolve with no
  error.  \<^verbatim>\<open>navigationResponse()\<close> is "the resulting main-resource response, or
  \<^verbatim>\<open>null\<close> if the navigation target was \<^verbatim>\<open>about:blank\<close> or only a same-document hash
  change"; \<^verbatim>\<open>dispose()\<close> detaches the listeners.
\<close>

datatype HTTPResponse = HTTPResponse nat

datatype navigation = MainResource HTTPResponse | AboutBlank | SameDocumentHashChange

record LifecycleWatcher =
  watcher_navigation :: navigation
  watcher_disposed :: bool

datatype watcher_signal = Timeout string | Terminated string

definition signal_error :: "watcher_signal \<Rightarrow> thrown" where
  "signal_error t = (case t of Timeout m \<Rightarrow> JSError m | Terminated m \<Rightarrow> JSError m)"

definition navigationResponse :: "LifecycleWatcher \<Rightarrow> HTTPResponse option" where
  "navigationResponse watcher =
     (case watcher_navigation watcher of
        MainResource response \<Rightarrow> Some response
      | AboutBlank \<Rightarrow> None
      | SameDocumentHashChange \<Rightarrow> None)"

definition dispose :: "LifecycleWatcher \<Rightarrow> LifecycleWatcher" where
  "dispose watcher = watcher\<lparr>watcher_disposed := True\<rparr>"

text \<open>
  The promise that settles the first \<^verbatim>\<open>Promise.race\<close>, and the one that settles the second
  (which has only promises of the watcher).
\<close>

datatype first_race = NavigateSettles | WatcherSettles watcher_signal

datatype second_race = TimeoutOrTermination watcher_signal | NewDocumentNavigation | SameDocumentNavigation

text \<open>
  The inner function \<^verbatim>\<open>navigate\<close>, given the outcome of \<^verbatim>\<open>client.send('Page.navigate')\<close>:
  a rejection, or a response with its \<^verbatim>\<open>errorText\<close>.  \<open>Inl\<close> is a rejected promise,
  \<open>Inr\<close> the error or \<^verbatim>\<open>null\<close> it resolves with.
\<close>

definition navigate :: "string \<Rightarrow> thrown + string option \<Rightarrow> thrown + thrown option" where
  "navigate url sent =
     (case sent of
        Inr errorText \<Rightarrow>
          Inr (if truthy errorText then Some (JSError (the errorText @ '' at '' @ url)) else None)
      | Inl error \<Rightarrow> if isErrorLike error then Inr (Some error) else Inl error)"

text \<open>
  \<^verbatim>\<open>navigateFrame\<close>: the value thrown or the response returned, and the watcher.  The
  options only reach the watcher's constructor and the command's parameters.
\<close>

definition navigateFrame ::
    "string \<Rightarrow> thrown + string option \<Rightarrow> first_race \<Rightarrow> second_race \<Rightarrow> LifecycleWatcher
       \<Rightarrow> (thrown + HTTPResponse option) \<times> LifecycleWatcher" where
  "navigateFrame url sent first second watcher =
     (case (case first of
              NavigateSettles \<Rightarrow> navigate url sent
            | WatcherSettles t \<Rightarrow> Inr (Some (signal_error t))) of
        Inl rejection \<Rightarrow> (Inl rejection, watcher)
      | Inr error1 \<Rightarrow>
          (let error2 =
                 (case error1 of
                    Some e \<Rightarrow> Some e
                  | None \<Rightarrow>
                      (case second of
                         TimeoutOrTermination t \<Rightarrow> Some (signal_error t)
                       | NewDocumentNavigation \<Rightarrow> None
                       | SameDocumentNavigation \<Rightarrow> None));
               watcher1 = dispose watcher
           in case error2 of
                Some e \<Rightarrow> (Inl e, watcher1)
              | None \<Rightarrow> (Inr (navigationResponse watcher1), watcher1)))"

subsection \<open>The frame tree in the store\<close>

text \<open>
  The frames below a frame: the frame itself and, with a frame, the members of its
  \<^verbatim>\<open>_childFrames\<close>.
\<close>

inductive_set subtree :: "state \<Rightarrow> frame_ref \<Rightarrow> frame_ref set" for st :: state and r :: frame_ref where
  root: "r \<in> subtree st r"
| child: "x \<in> subtree st r \<Longrightarrow> c \<in> set (childFrames (frame_store st x)) \<Longrightarrow> c \<in> subtree st r"

text \<open>
  The post-order of the frames below a frame, as the spec words it ("recursively destroy
  the entire subtree first"): the post-orders of the children, in the order of the set,
  then the frame.  The fuel bounds the depth.
\<close>

fun postorder :: "nat \<Rightarrow> state \<Rightarrow> frame_ref \<Rightarrow> frame_ref list" where
  "postorder 0 st r = []"
| "postorder (Suc n) st r = concat (map (postorder n st) (childFrames (frame_store st r))) @ [r]"

text \<open>
  What the constructor of \<^verbatim>\<open>Frame\<close> establishes and \<^verbatim>\<open>_detach\<close> keeps: a set of children
  has no repetition, a child is an object allocated after its parent, and it points back
  to that parent.
\<close>

definition tree_ok :: "state \<Rightarrow> bool" where
  "tree_ok st =
     (\<forall>r. distinct (childFrames (frame_store st r))
          \<and> (\<forall>c \<in> set (childFrames (frame_store st r)).
                r < c \<and> c < frame_next st \<and> parentFrame (frame_store st c) = Some r))"

text \<open>Detaching and deleting the frames of a list, one after the other.\<close>

primrec detach_all :: "frame_ref list \<Rightarrow> state \<Rightarrow> state" where
  "detach_all [] st = st"
| "detach_all (x # xs) st = detach_all xs (detach_and_delete x st)"

text \<open>Every entry of the frame index holds an allocated frame under the frame's own id.\<close>

definition index_ok :: "state \<Rightarrow> bool" where
  "index_ok st =
     (\<forall>e \<in> set (fm_frames st). snd e < frame_next st \<and> frame_id (frame_store st (snd e)) = fst e)"

text \<open>
  The three conditions that every handler keeps: the tree, the index, and a recorded main
  frame that is an allocated object.
\<close>

definition state_ok :: "state \<Rightarrow> bool" where
  "state_ok st =
     (tree_ok st \<and> index_ok st \<and> (\<forall>r. fm_mainFrame st = Some r \<longrightarrow> r < frame_next st))"

text \<open>The number of frames of a protocol frame tree.\<close>

fun tree_nodes :: "FrameTree \<Rightarrow> nat" where
  "tree_nodes (FrameTree payload children) = Suc (sum_list (map tree_nodes children))"

subsection \<open>Example states\<close>

text \<open>
  The scenario of the spec: the main frame \<open>F1\<close> navigates to \<open>https://a.test\<close>, then
  the child frame \<open>F2\<close> is attached under it.  In \<open>example_oop_page\<close> the child has
  moved to a session of its own (what \<^verbatim>\<open>#onAttachedToTarget\<close> does with
  \<^verbatim>\<open>frame._updateClient(session)\<close>); then the main session reports the default context
  of \<open>F1\<close> under the context id 1 (\<open>example_main_context\<close>) and the other session the
  default context of \<open>F2\<close> under the same id (\<open>example_contexts\<close>).
\<close>

definition example_page :: state where
  "example_page =
     (case onFrameNavigated 0
             \<lparr>payload_id = ''F1'', payload_parentId = None, payload_name = None,
              payload_url = ''https://a.test'', payload_urlFragment = None\<rparr>
             (new_FrameManager (CDPSession ''main'')) of
        Some (Inr st) \<Rightarrow>
          (case onFrameAttached (CDPSession ''main'') ''F2'' (Some ''F1'') st of
             Inr st' \<Rightarrow> st'
           | Inl e \<Rightarrow> st)
      | _ \<Rightarrow> new_FrameManager (CDPSession ''main''))"

definition example_oop_page :: state where
  "example_oop_page = updateClient 1 (CDPSession ''oop'') example_page"

definition example_default_context :: "string \<Rightarrow> ExecutionContextDescription" where
  "example_default_context frameId =
     \<lparr>description_id = 1, description_name = [],
      description_auxData = Some \<lparr>aux_frameId = Some frameId, aux_isDefault = True\<rparr>\<rparr>"

definition example_main_context :: state where
  "example_main_context =
     (case onExecutionContextCreated (example_default_context ''F1'') (CDPSession ''main'') example_oop_page of
        Inr st \<Rightarrow> st
      | Inl e \<Rightarrow> example_oop_page)"

definition example_contexts :: state where
  "example_contexts =
     (case onExecutionContextCreated (example_default_context ''F2'') (CDPSession ''oop'') example_main_context of
        Inr st \<Rightarrow> st
      | Inl e \<Rightarrow> example_main_context)"

text \<open>
  On \<open>example_oop_page\<close>, the session of the frame \<open>F2\<close> alone has reported its default
  context.
\<close>

definition example_one_context :: state where
  "example_one_context =
     (case onExecutionContextCreated (example_default_context ''F2'') (CDPSession ''oop'') example_oop_page of
        Inr st \<Rightarrow> st
      | Inl e \<Rightarrow> example_oop_page)"

text \<open>
  A context that is not a default one, and the state after the main session has reported
  the utility world of \<open>F1\<close> on \<open>example_contexts\<close>.
\<close>

definition example_named_context :: "string \<Rightarrow> int \<Rightarrow> string \<Rightarrow> ExecutionContextDescription" where
  "example_named_context frameId i name =
     \<lparr>description_id = i, description_name = name,
      description_auxData = Some \<lparr>aux_frameId = Some frameId, aux_isDefault = False\<rparr>\<rparr>"

definition example_utility :: state where
  "example_utility =
     (case onExecutionContextCreated (example_named_context ''F1'' 2 UTILITY_WORLD_NAME)
             (CDPSession ''main'') example_contexts of
        Inr st \<Rightarrow> st
      | Inl e \<Rightarrow> example_contexts)"

text \<open>A second default context of \<open>F1\<close>, reported while the first one is live.\<close>

definition example_second_context :: ExecutionContextDescription where
  "example_second_context =
     \<lparr>description_id = 2, description_name = [],
      description_auxData = Some \<lparr>aux_frameId = Some ''F1'', aux_isDefault = True\<rparr>\<rparr>"

text \<open>A navigation of the main frame to a document of another process: the frame id changes.\<close>

definition example_navigation :: FramePayload where
  "example_navigation =
     \<lparr>payload_id = ''F9'', payload_parentId = None, payload_name = None,
      payload_url = ''https://b.test'', payload_urlFragment = None\<rparr>"

text \<open>The frame tree that \<^verbatim>\<open>Page.getFrameTree\<close> reports for that page.\<close>

definition example_frame_tree :: FrameTree where
  "example_frame_tree =
     FrameTree \<lparr>payload_id = ''F1'', payload_parentId = None, payload_name = None,
                payload_url = ''https://a.test'', payload_urlFragment = None\<rparr>
       [FrameTree \<lparr>payload_id = ''F2'', payload_parentId = Some ''F1'', payload_name = Some ''child'',
                   payload_url = ''https://a.test/frame'', payload_urlFragment = None\<rparr> []]"

section \<open>Evaluation of the model\<close>

lemmas store_defs = emit_def update_frame_def update_world_def new_DOMWorld_def
  DOMWorld_setContext_def DOMWorld_setContext_null_def DOMWorld_hasContext_def DOMWorld_detach_def
  new_ExecutionContext_def

lemmas frame_defs = onFrameNavigated_def onFrameAttached_def new_FrameManager_def truthy_def
  new_Frame_def updateClient_def navigated_def isOOPFrame_def Frame_detach_def detach_and_delete_def

section \<open>The composite key of the context index\<close>

lemma digits_nonempty: "digits n \<noteq> []"
  by (subst digits.simps) simp

lemma digits_chars: "c \<in> set (digits n) \<Longrightarrow> c \<in> char_of ` {48..57::nat}"
proof (induction n rule: digits.induct)
  case (1 n)
  show ?case
  proof (cases "n < 10")
    case True
    with "1.prems" show ?thesis by (subst (asm) digits.simps) auto
  next
    case False
    with "1.prems" have "c \<in> set (digits (n div 10)) \<or> c = char_of (48 + n mod 10)"
      by (subst (asm) digits.simps) auto
    then show ?thesis
    proof
      assume "c \<in> set (digits (n div 10))"
      with False "1.IH" show ?thesis by simp
    next
      assume "c = char_of (48 + n mod 10)"
      moreover have "48 + n mod 10 \<in> {48..57}" by simp
      ultimately show ?thesis by blast
    qed
  qed
qed

lemma colon_not_digit: "CHR '':'' \<notin> set (digits n)"
proof
  assume "CHR '':'' \<in> set (digits n)"
  then obtain k :: nat where k: "k \<in> {48..57}" "CHR '':'' = char_of k"
    using digits_chars by blast
  then have "of_char (CHR '':'') = (of_char (char_of k :: char) :: nat)" by simp
  with k(1) show False by (simp add: of_char_of)
qed

lemma minus_not_digit: "CHR ''-'' \<notin> set (digits n)"
proof
  assume "CHR ''-'' \<in> set (digits n)"
  then obtain k :: nat where k: "k \<in> {48..57}" "CHR ''-'' = char_of k"
    using digits_chars by blast
  then have "of_char (CHR ''-'') = (of_char (char_of k :: char) :: nat)" by simp
  with k(1) show False by (simp add: of_char_of)
qed

lemma digits_value_digits: "foldl (\<lambda>a c. 10 * a + (of_char c - 48)) 0 (digits n) = n"
proof (induction n rule: digits.induct)
  case (1 n)
  show ?case
  proof (cases "n < 10")
    case True
    then show ?thesis by (subst digits.simps) (simp add: of_char_of)
  next
    case False
    with "1.IH" have "foldl (\<lambda>a c. 10 * a + (of_char c - 48)) 0 (digits (n div 10)) = n div 10" by simp
    with False show ?thesis
      by (subst digits.simps) (simp add: of_char_of)
  qed
qed

lemma digits_inj: "digits n = digits m \<Longrightarrow> n = m"
  by (metis digits_value_digits)

lemma number_to_string_inj: "number_to_string i = number_to_string j \<Longrightarrow> i = j"
proof -
  assume eq: "number_to_string i = number_to_string j"
  have neg_pos: "CHR ''-'' # digits a \<noteq> digits b" for a b
    using minus_not_digit [of b] by (metis list.set_intros(1))
  show ?thesis
  proof (cases "i < 0")
    case True
    note i = this
    show ?thesis
    proof (cases "j < 0")
      case True
      with i eq have "digits (nat (- i)) = digits (nat (- j))" by (simp add: number_to_string_def)
      then have "nat (- i) = nat (- j)" by (rule digits_inj)
      with i True show ?thesis by simp
    next
      case False
      with i eq neg_pos show ?thesis by (simp add: number_to_string_def)
    qed
  next
    case False
    note i = this
    show ?thesis
    proof (cases "j < 0")
      case True
      with i eq neg_pos [of "nat (- j)" "nat i"] show ?thesis by (simp add: number_to_string_def)
    next
      case False
      with i eq have "digits (nat i) = digits (nat j)" by (simp add: number_to_string_def)
      then have "nat i = nat j" by (rule digits_inj)
      with i False show ?thesis by simp
    qed
  qed
qed

lemma colon_not_number: "CHR '':'' \<notin> set (number_to_string i)"
  using colon_not_digit by (simp add: number_to_string_def)

lemma split_last_sep:
  "xs @ c # ys = xs' @ c # ys' \<Longrightarrow> c \<notin> set ys \<Longrightarrow> c \<notin> set ys' \<Longrightarrow> xs = xs' \<and> ys = ys'"
proof (induction xs arbitrary: xs')
  case Nil
  then show ?case by (cases xs') auto
next
  case (Cons a xs)
  then show ?case by (cases xs') auto
qed

lemma context_key_inj:
  "context_key s i = context_key s' i' \<longleftrightarrow> s = s' \<and> i = i'"
proof
  assume "context_key s i = context_key s' i'"
  then have "session_id s @ CHR '':'' # number_to_string i = session_id s' @ CHR '':'' # number_to_string i'"
    by (simp add: context_key_def)
  then have "session_id s = session_id s' \<and> number_to_string i = number_to_string i'"
    by (rule split_last_sep [OF _ colon_not_number colon_not_number])
  then show "s = s' \<and> i = i'"
    by (simp add: number_to_string_inj CDPSession.expand)
qed simp

lemma lookup_update: "map_of (AList.update k v xs) k' = (if k' = k then Some v else map_of xs k')"
  by (simp add: AList.update_conv)

lemma context_key_session: "context_key s n = context_key t n \<longleftrightarrow> s = t"
  by (cases s; cases t) (simp add: context_key_def)

lemma number_to_string_1: "number_to_string 1 = ''1''"
  by code_simp

section \<open>The example states\<close>

lemma example_page_fields:
  "fm_frames example_page = [(''F1'', 0), (''F2'', 1)]"
  "fm_contextIdToContext example_page = []"
  "fm_mainFrame example_page = Some 0"
  "fm_client example_page = CDPSession ''main''"
  "frame_next example_page = 2"
  "world_next example_page = 4"
  "context_next example_page = 0"
  "emitted example_page = [FrameNavigated 0, FrameAttached 1]"
  "frame_store example_page 0 = \<lparr>parentFrame = None, frame_url = ''https://a.test'', frame_detached = False,
       frame_client = CDPSession ''main'', frame_id = ''F1'', frame_name = None,
       mainWorld = 0, secondaryWorld = 1, childFrames = [1]\<rparr>"
  "frame_store example_page (Suc 0) = \<lparr>parentFrame = Some 0, frame_url = [], frame_detached = False,
       frame_client = CDPSession ''main'', frame_id = ''F2'', frame_name = None,
       mainWorld = 2, secondaryWorld = 3, childFrames = []\<rparr>"
  "world_store example_page w = \<lparr>world_frame = (if w = 2 \<or> w = 3 then 1 else 0), world_context = None, world_detached = False\<rparr>"
  by (simp_all add: example_page_def frame_defs store_defs Let_def)

lemma example_oop_page_fields:
  "fm_frames example_oop_page = [(''F1'', 0), (''F2'', 1)]"
  "fm_contextIdToContext example_oop_page = []"
  "fm_client example_oop_page = CDPSession ''main''"
  "context_next example_oop_page = 0"
  "frame_client (frame_store example_oop_page 0) = CDPSession ''main''"
  "frame_client (frame_store example_oop_page (Suc 0)) = CDPSession ''oop''"
  "mainWorld (frame_store example_oop_page 0) = 0"
  "mainWorld (frame_store example_oop_page (Suc 0)) = 4"
  "secondaryWorld (frame_store example_oop_page 0) = 1"
  "secondaryWorld (frame_store example_oop_page (Suc 0)) = 5"
  "world_context (world_store example_oop_page w) = None"
  "world_next example_oop_page = 6"
  by (simp_all add: example_oop_page_def updateClient_def store_defs Let_def example_page_fields)

lemma example_page_children:
  "childFrames (frame_store example_page r) = (if r = 0 then [1] else [])"
  "parentFrame (frame_store example_page r) = (if r = 1 then Some 0 else None)"
  by (simp_all add: example_page_def frame_defs store_defs Let_def)

lemma example_page_tree_ok: "tree_ok example_page"
  by (simp add: tree_ok_def example_page_children example_page_fields)

lemma example_page_index_ok: "index_ok example_page"
  by (simp add: index_ok_def example_page_fields)

lemma postorder_example_page: "postorder 2 example_page 0 = [1, 0]"
  by (simp add: numeral_2_eq_2 example_page_children)

lemma postorder_example_child: "postorder 2 example_page 1 = [1]"
  by (simp add: numeral_2_eq_2 example_page_children)

section \<open>Execution contexts\<close>

lemma created_other_session:
  "other_session_frame p s st \<Longrightarrow> onExecutionContextCreated p s st = Inr st"
  by (simp add: onExecutionContextCreated_def)

lemma created_throws:
  "\<not> other_session_frame p s st \<Longrightarrow> chosen_world p st = Some w \<Longrightarrow> DOMWorld_hasContext w st \<Longrightarrow>
   onExecutionContextCreated p s st = Inl (JSError ''Execution Context has already been set.'')"
  by (simp add: onExecutionContextCreated_def store_defs Let_def)

lemma created_returns:
  "\<not> other_session_frame p s st \<Longrightarrow> (\<And>w. chosen_world p st = Some w \<Longrightarrow> \<not> DOMWorld_hasContext w st) \<Longrightarrow>
   \<exists>st'. onExecutionContextCreated p s st = Inr st'"
  by (cases "chosen_world p st") (simp_all add: onExecutionContextCreated_def store_defs Let_def)

lemma created_throws_iff:
  "onExecutionContextCreated p s st = Inl e \<longleftrightarrow>
     \<not> other_session_frame p s st
     \<and> (\<exists>w. chosen_world p st = Some w \<and> DOMWorld_hasContext w st)
     \<and> e = JSError ''Execution Context has already been set.''"
  by (cases "chosen_world p st")
     (auto simp add: onExecutionContextCreated_def store_defs Let_def split: if_splits)

lemma created_index:
  assumes "onExecutionContextCreated p s st = Inr st'" and "\<not> other_session_frame p s st"
  shows "fm_contextIdToContext st' =
     AList.update (context_key s (description_id p)) (context_next st) (fm_contextIdToContext st)"
  using assms
  by (cases "chosen_world p st")
     (auto simp add: onExecutionContextCreated_def store_defs Let_def split: if_splits)

lemma created_frames:
  assumes "onExecutionContextCreated p s st = Inr st'"
  shows "fm_frames st' = fm_frames st \<and> frame_store st' = frame_store st \<and> fm_client st' = fm_client st
    \<and> frame_next st' = frame_next st \<and> fm_mainFrame st' = fm_mainFrame st"
  using assms
  by (cases "chosen_world p st")
     (auto simp add: onExecutionContextCreated_def store_defs Let_def split: if_splits)

lemma created_next:
  assumes "onExecutionContextCreated p s st = Inr st'" and "\<not> other_session_frame p s st"
  shows "context_next st' = Suc (context_next st)"
  using assms
  by (cases "chosen_world p st")
     (auto simp add: onExecutionContextCreated_def store_defs Let_def split: if_splits)

lemma created_store:
  assumes "onExecutionContextCreated p s st = Inr st'" and "\<not> other_session_frame p s st"
  shows "context_store st' =
     (context_store st)(context_next st :=
        \<lparr>context_client = (case context_frame p st of None \<Rightarrow> fm_client st | Some r \<Rightarrow> frame_client (frame_store st r)),
         context_payload = p,
         context_world = chosen_world p st\<rparr>)"
  using assms
  by (cases "chosen_world p st")
     (auto simp add: onExecutionContextCreated_def store_defs Let_def split: if_splits)

lemma created_world_store:
  assumes "onExecutionContextCreated p s st = Inr st'" and "\<not> other_session_frame p s st"
  shows "world_store st' =
     (case chosen_world p st of
        None \<Rightarrow> world_store st
      | Some w \<Rightarrow> (world_store st)(w := (world_store st w)\<lparr>world_context := Some (context_next st)\<rparr>))"
  using assms
  by (cases "chosen_world p st")
     (auto simp add: onExecutionContextCreated_def store_defs Let_def split: if_splits)

lemma created_world_next:
  assumes "onExecutionContextCreated p s st = Inr st'"
  shows "world_next st' = world_next st"
  using assms
  by (cases "chosen_world p st")
     (auto simp add: onExecutionContextCreated_def store_defs Let_def split: if_splits)

lemma other_session_frame_created:
  assumes "onExecutionContextCreated p s st = Inr st'"
  shows "other_session_frame q t st' = other_session_frame q t st"
  using created_frames [OF assms]
  by (simp add: other_session_frame_def context_frame_def split: option.splits)

lemma number_to_string_2: "number_to_string 2 = ''2''"
  by code_simp

lemma example_main_context_created:
  "onExecutionContextCreated (example_default_context ''F1'') (CDPSession ''main'') example_oop_page
     = Inr example_main_context"
proof -
  have "\<exists>st'. onExecutionContextCreated (example_default_context ''F1'') (CDPSession ''main'') example_oop_page
     = Inr st'"
    by (rule created_returns)
       (simp_all add: other_session_frame_def context_frame_def chosen_world_def isDefault_def
          example_default_context_def example_oop_page_fields DOMWorld_hasContext_def)
  then show ?thesis by (auto simp add: example_main_context_def)
qed

lemma example_main_context_fields:
  "fm_frames example_main_context = [(''F1'', 0), (''F2'', 1)]"
  "frame_store example_main_context = frame_store example_oop_page"
  "fm_contextIdToContext example_main_context = [(''main:1'', 0)]"
  "context_next example_main_context = 1"
  "world_context (world_store example_main_context w) = (if w = 0 then Some 0 else None)"
  "fm_client example_main_context = CDPSession ''main''"
  "context_store example_main_context 0 =
     \<lparr>context_client = CDPSession ''main'', context_payload = example_default_context ''F1'',
      context_world = Some 0\<rparr>"
proof -
  note c = example_main_context_created
  have own: "\<not> other_session_frame (example_default_context ''F1'') (CDPSession ''main'') example_oop_page"
    by (simp add: other_session_frame_def context_frame_def example_default_context_def
        example_oop_page_fields)
  have ch: "chosen_world (example_default_context ''F1'') example_oop_page = Some 0"
    by (simp add: chosen_world_def context_frame_def isDefault_def example_default_context_def
        example_oop_page_fields)
  show "fm_frames example_main_context = [(''F1'', 0), (''F2'', 1)]"
    "frame_store example_main_context = frame_store example_oop_page"
    using created_frames [OF c] by (simp_all add: example_oop_page_fields)
  show "fm_contextIdToContext example_main_context = [(''main:1'', 0)]"
    using created_index [OF c own]
    by (simp add: example_oop_page_fields example_default_context_def context_key_def number_to_string_1)
  show "context_next example_main_context = 1"
    using created_next [OF c own] by (simp add: example_oop_page_fields)
  show "world_context (world_store example_main_context w) = (if w = 0 then Some 0 else None)"
    using created_world_store [OF c own]
    by (simp add: ch example_oop_page_fields)
  show "fm_client example_main_context = CDPSession ''main''"
    using created_frames [OF c] by (simp add: example_oop_page_fields)
  show "context_store example_main_context 0 =
     \<lparr>context_client = CDPSession ''main'', context_payload = example_default_context ''F1'',
      context_world = Some 0\<rparr>"
    using created_store [OF c own, unfolded ch]
    by (simp add: example_oop_page_fields context_frame_def example_default_context_def)
qed


lemma example_contexts_created:
  "onExecutionContextCreated (example_default_context ''F2'') (CDPSession ''oop'') example_main_context
     = Inr example_contexts"
proof -
  have "\<exists>st'. onExecutionContextCreated (example_default_context ''F2'') (CDPSession ''oop'') example_main_context
     = Inr st'"
    by (rule created_returns)
       (simp_all add: other_session_frame_def context_frame_def chosen_world_def isDefault_def
          example_default_context_def example_main_context_fields example_oop_page_fields
          DOMWorld_hasContext_def)
  then show ?thesis by (auto simp add: example_contexts_def)
qed

lemma example_contexts_fields:
  "fm_frames example_contexts = [(''F1'', 0), (''F2'', 1)]"
  "frame_store example_contexts = frame_store example_oop_page"
  "fm_client example_contexts = CDPSession ''main''"
  "fm_contextIdToContext example_contexts = [(''main:1'', 0), (''oop:1'', 1)]"
  "context_next example_contexts = 2"
  "world_next example_contexts = 6"
  "world_context (world_store example_contexts w) = (if w = 0 then Some 0 else if w = 4 then Some 1 else None)"
  "context_store example_contexts 0 =
     \<lparr>context_client = CDPSession ''main'', context_payload = example_default_context ''F1'',
      context_world = Some 0\<rparr>"
  "context_store example_contexts (Suc 0) =
     \<lparr>context_client = CDPSession ''oop'', context_payload = example_default_context ''F2'',
      context_world = Some 4\<rparr>"
proof -
  note c = example_contexts_created
  have own: "\<not> other_session_frame (example_default_context ''F2'') (CDPSession ''oop'') example_main_context"
    by (simp add: other_session_frame_def context_frame_def example_default_context_def
        example_main_context_fields example_oop_page_fields)
  have ch: "chosen_world (example_default_context ''F2'') example_main_context = Some 4"
    by (simp add: chosen_world_def context_frame_def isDefault_def example_default_context_def
        example_main_context_fields example_oop_page_fields)
  show "fm_frames example_contexts = [(''F1'', 0), (''F2'', 1)]"
    "frame_store example_contexts = frame_store example_oop_page"
    "fm_client example_contexts = CDPSession ''main''"
    using created_frames [OF c] by (simp_all add: example_main_context_fields)
  show "fm_contextIdToContext example_contexts = [(''main:1'', 0), (''oop:1'', 1)]"
    using created_index [OF c own]
    by (simp add: example_main_context_fields example_default_context_def context_key_def number_to_string_1)
  show "context_next example_contexts = 2"
    using created_next [OF c own] by (simp add: example_main_context_fields)
  show "world_next example_contexts = 6"
    using created_world_next [OF c] created_world_next [OF example_main_context_created]
    by (simp add: example_oop_page_fields)
  show "world_context (world_store example_contexts w) = (if w = 0 then Some 0 else if w = 4 then Some 1 else None)"
    using created_world_store [OF c own]
    by (simp add: ch example_main_context_fields)
  show "context_store example_contexts 0 =
     \<lparr>context_client = CDPSession ''main'', context_payload = example_default_context ''F1'',
      context_world = Some 0\<rparr>"
    using created_store [OF c own]
    by (simp add: example_main_context_fields)
  show "context_store example_contexts (Suc 0) =
     \<lparr>context_client = CDPSession ''oop'', context_payload = example_default_context ''F2'',
      context_world = Some 4\<rparr>"
    using created_store [OF c own, unfolded ch]
    by (simp add: example_main_context_fields example_oop_page_fields context_frame_def
        example_default_context_def)
qed

lemma example_one_context_created:
  "onExecutionContextCreated (example_default_context ''F2'') (CDPSession ''oop'') example_oop_page
     = Inr example_one_context"
proof -
  have "\<exists>st'. onExecutionContextCreated (example_default_context ''F2'') (CDPSession ''oop'') example_oop_page
     = Inr st'"
    by (rule created_returns)
       (simp_all add: other_session_frame_def context_frame_def chosen_world_def isDefault_def
          example_default_context_def example_oop_page_fields DOMWorld_hasContext_def)
  then show ?thesis by (auto simp add: example_one_context_def)
qed

lemma example_one_context_fields:
  "fm_contextIdToContext example_one_context = [(''oop:1'', 0)]"
  "context_next example_one_context = 1"
proof -
  note c = example_one_context_created
  have own: "\<not> other_session_frame (example_default_context ''F2'') (CDPSession ''oop'') example_oop_page"
    by (simp add: other_session_frame_def context_frame_def example_default_context_def
        example_oop_page_fields)
  show "fm_contextIdToContext example_one_context = [(''oop:1'', 0)]"
    using created_index [OF c own]
    by (simp add: example_oop_page_fields example_default_context_def context_key_def number_to_string_1)
  show "context_next example_one_context = 1"
    using created_next [OF c own] by (simp add: example_oop_page_fields)
qed

lemma example_utility_created:
  "onExecutionContextCreated (example_named_context ''F1'' 2 UTILITY_WORLD_NAME) (CDPSession ''main'')
     example_contexts = Inr example_utility"
proof -
  have "\<exists>st'. onExecutionContextCreated (example_named_context ''F1'' 2 UTILITY_WORLD_NAME) (CDPSession ''main'')
     example_contexts = Inr st'"
    by (rule created_returns)
       (simp_all add: other_session_frame_def context_frame_def chosen_world_def isDefault_def
          example_named_context_def example_contexts_fields example_oop_page_fields
          DOMWorld_hasContext_def)
  then show ?thesis by (auto simp add: example_utility_def)
qed

lemma example_utility_fields:
  "fm_frames example_utility = [(''F1'', 0), (''F2'', 1)]"
  "frame_store example_utility = frame_store example_oop_page"
  "fm_contextIdToContext example_utility = [(''main:1'', 0), (''oop:1'', 1), (''main:2'', 2)]"
  "context_next example_utility = 3"
  "world_context (world_store example_utility w) =
     (if w = 0 then Some 0 else if w = 1 then Some 2 else if w = 4 then Some 1 else None)"
proof -
  note c = example_utility_created
  have own: "\<not> other_session_frame (example_named_context ''F1'' 2 UTILITY_WORLD_NAME) (CDPSession ''main'')
      example_contexts"
    by (simp add: other_session_frame_def context_frame_def example_named_context_def
        example_contexts_fields example_oop_page_fields)
  have ch: "chosen_world (example_named_context ''F1'' 2 UTILITY_WORLD_NAME) example_contexts = Some 1"
    by (simp add: chosen_world_def context_frame_def isDefault_def example_named_context_def
        example_contexts_fields example_oop_page_fields DOMWorld_hasContext_def)
  show "fm_frames example_utility = [(''F1'', 0), (''F2'', 1)]"
    "frame_store example_utility = frame_store example_oop_page"
    using created_frames [OF c] by (simp_all add: example_contexts_fields)
  show "fm_contextIdToContext example_utility = [(''main:1'', 0), (''oop:1'', 1), (''main:2'', 2)]"
    using created_index [OF c own]
    by (simp add: example_contexts_fields example_named_context_def context_key_def number_to_string_2)
  show "context_next example_utility = 3"
    using created_next [OF c own] by (simp add: example_contexts_fields)
  show "world_context (world_store example_utility w) =
     (if w = 0 then Some 0 else if w = 1 then Some 2 else if w = 4 then Some 1 else None)"
    using created_world_store [OF c own]
    by (simp add: ch example_contexts_fields)
qed

lemma map_of_delete_same: "map_of (AList.delete k xs) k = None"
  by (simp add: AList.delete_conv)

text \<open>
  Claim C5.  \<^verbatim>\<open>executionContextById\<close> for a (session, id) pair whose key is not in the
  context index, and \<^verbatim>\<open>mainFrame()\<close> before a main frame is recorded (as in a manager
  just constructed), throw the assertion's error instead of returning a value; after an
  \<^verbatim>\<open>executionContextDestroyed\<close> event the lookup of the same id and session throws in
  this way.
\<close>

theorem missing_context_and_main_frame_are_fatal:
  "(map_of (fm_contextIdToContext st) (context_key session contextId) = None \<longrightarrow>
      executionContextById contextId session st =
        Inl (JSError (''INTERNAL ERROR: missing context with id = '' @ number_to_string contextId)))
   \<and> (fm_mainFrame st = None \<longrightarrow> mainFrame st = Inl (JSError ''Requesting main frame too early!''))
   \<and> mainFrame (new_FrameManager c) = Inl (JSError ''Requesting main frame too early!'')
   \<and> executionContextById contextId session (onExecutionContextDestroyed contextId session st) =
        Inl (JSError (''INTERNAL ERROR: missing context with id = '' @ number_to_string contextId))"
  by (simp add: executionContextById_def mainFrame_def new_FrameManager_def
      onExecutionContextDestroyed_def store_defs Let_def map_of_delete_same split: option.splits)


theorem missing_context_and_main_frame_are_fatal_witness:
  "map_of (fm_contextIdToContext example_page) (context_key (CDPSession ''main'') 1) = None
   \<and> executionContextById 1 (CDPSession ''main'') example_page = Inl (JSError ''INTERNAL ERROR: missing context with id = 1'')
   \<and> fm_mainFrame (new_FrameManager (CDPSession ''main'')) = None
   \<and> mainFrame (new_FrameManager (CDPSession ''main'')) = Inl (JSError ''Requesting main frame too early!'')
   \<and> executionContextById 1 (CDPSession ''main'') example_contexts = Inr 0
   \<and> executionContextById 1 (CDPSession ''main'')
        (onExecutionContextDestroyed 1 (CDPSession ''main'') example_contexts)
      = Inl (JSError ''INTERNAL ERROR: missing context with id = 1'')"
proof -
  have h1: "map_of (fm_contextIdToContext example_page) (context_key (CDPSession ''main'') 1) = None"
    by (simp add: example_page_fields)
  have h2: "fm_mainFrame (new_FrameManager (CDPSession ''main'')) = None"
    by (simp add: new_FrameManager_def)
  have h3: "executionContextById 1 (CDPSession ''main'') example_contexts = Inr 0"
    by (simp add: executionContextById_def example_contexts_fields context_key_def number_to_string_1)
  show ?thesis
    using missing_context_and_main_frame_are_fatal [of example_page "CDPSession ''main''" 1]
      missing_context_and_main_frame_are_fatal [of "new_FrameManager (CDPSession ''main'')" "CDPSession ''main''" 1]
      missing_context_and_main_frame_are_fatal [of example_contexts "CDPSession ''main''" 1]
      h1 h2 h3
    by (simp add: number_to_string_1)
qed

text \<open>
  Claim C10.  When \<^verbatim>\<open>auxData.frameId\<close> names a tracked frame whose session is not the
  one that delivered the \<^verbatim>\<open>executionContextCreated\<close> event, the handler returns at
  once: the whole state is unchanged (no context object, no index entry, no World bound),
  and the lookup of that session and context id, not indexed before the event, throws
  the missing-context assertion after it.
\<close>

theorem other_session_context_is_dropped:
  assumes "context_frame p st = Some r" and "frame_client (frame_store st r) \<noteq> session"
  shows "onExecutionContextCreated p session st = Inr st
    \<and> (map_of (fm_contextIdToContext st) (context_key session (description_id p)) = None \<longrightarrow>
         (\<exists>st'. onExecutionContextCreated p session st = Inr st'
            \<and> executionContextById (description_id p) session st' =
                Inl (JSError (''INTERNAL ERROR: missing context with id = '' @ number_to_string (description_id p)))))"
proof -
  from assms have "other_session_frame p session st" by (simp add: other_session_frame_def)
  then have "onExecutionContextCreated p session st = Inr st" by (rule created_other_session)
  then show ?thesis by (simp add: executionContextById_def)
qed

theorem other_session_context_is_dropped_witness:
  "context_frame (example_default_context ''F2'') example_oop_page = Some 1
   \<and> frame_client (frame_store example_oop_page 1) \<noteq> CDPSession ''main''
   \<and> map_of (fm_contextIdToContext example_oop_page) (context_key (CDPSession ''main'') 1) = None
   \<and> onExecutionContextCreated (example_default_context ''F2'') (CDPSession ''main'') example_oop_page
        = Inr example_oop_page
   \<and> executionContextById 1 (CDPSession ''main'') example_oop_page
      = Inl (JSError ''INTERNAL ERROR: missing context with id = 1'')"
proof -
  have h1: "context_frame (example_default_context ''F2'') example_oop_page = Some 1"
    by (simp add: context_frame_def example_default_context_def example_oop_page_fields)
  have h2: "frame_client (frame_store example_oop_page 1) \<noteq> CDPSession ''main''"
    by (simp add: example_oop_page_fields)
  have h3: "map_of (fm_contextIdToContext example_oop_page) (context_key (CDPSession ''main'') 1) = None"
    by (simp add: example_oop_page_fields)
  have d: "description_id (example_default_context ''F2'') = 1" by (simp add: example_default_context_def)
  note t = other_session_context_is_dropped [OF h1 h2]
  have c1: "onExecutionContextCreated (example_default_context ''F2'') (CDPSession ''main'') example_oop_page
      = Inr example_oop_page"
    by (rule t [THEN conjunct1])
  have c2: "executionContextById 1 (CDPSession ''main'') example_oop_page
      = Inl (JSError ''INTERNAL ERROR: missing context with id = 1'')"
    using t [THEN conjunct2, rule_format, unfolded d, OF h3] by (auto simp add: c1 number_to_string_1)
  show ?thesis
    using h1 h2 h3 c1 c2 by blast
qed

text \<open>
  Claim C4, as the code has it.  Two different sessions report a context with the same
  numeric id, and the handler runs to its end on both events: neither event names a
  tracked frame of another session (such an event is dropped, see C10), and neither is
  aborted by the assertion of the World it binds (\<open>created_throws_iff\<close>: the World
  chosen for the context holds one already).  The two events allocate two different
  context objects, stored under two different keys; the lookup of the id returns, for each
  session, the object created from that session's payload.  The keys tell any two
  (session, id) pairs apart (\<open>context_key_inj\<close>).
\<close>

theorem contexts_are_keyed_by_session_and_id:
  assumes "s1 \<noteq> s2" and "description_id p1 = n" and "description_id p2 = n"
    and "\<not> other_session_frame p1 s1 st" and "\<not> other_session_frame p2 s2 st"
    and "onExecutionContextCreated p1 s1 st = Inr st1"
    and "onExecutionContextCreated p2 s2 st1 = Inr st2"
  shows "executionContextById n s1 st2 = Inr (context_next st)
    \<and> executionContextById n s2 st2 = Inr (Suc (context_next st))
    \<and> context_payload (context_store st2 (context_next st)) = p1
    \<and> context_payload (context_store st2 (Suc (context_next st))) = p2
    \<and> context_key s1 n \<noteq> context_key s2 n"
proof -
  have keys: "context_key s1 n \<noteq> context_key s2 n"
    using assms(1) by (simp add: context_key_session)
  have 2: "\<not> other_session_frame p2 s2 st1"
    using assms(5) by (simp add: other_session_frame_created [OF assms(6)])
  have next_a: "context_next st1 = Suc (context_next st)"
    using assms(6,4) by (rule created_next)
  have idx: "fm_contextIdToContext st2 =
      AList.update (context_key s2 n) (Suc (context_next st))
        (AList.update (context_key s1 n) (context_next st) (fm_contextIdToContext st))"
    using created_index [OF assms(7) 2] created_index [OF assms(6,4)] assms(2,3) next_a by simp
  have store: "context_payload (context_store st2 (context_next st)) = p1"
    "context_payload (context_store st2 (Suc (context_next st))) = p2"
    using created_store [OF assms(7) 2] created_store [OF assms(6,4)] next_a by simp_all
  show ?thesis
    using keys store by (simp add: executionContextById_def idx lookup_update)
qed

theorem contexts_are_keyed_by_session_and_id_witness:
  "CDPSession ''main'' \<noteq> CDPSession ''oop''
   \<and> \<not> other_session_frame (example_default_context ''F1'') (CDPSession ''main'') example_oop_page
   \<and> \<not> other_session_frame (example_default_context ''F2'') (CDPSession ''oop'') example_oop_page
   \<and> onExecutionContextCreated (example_default_context ''F1'') (CDPSession ''main'') example_oop_page
        = Inr example_main_context
   \<and> onExecutionContextCreated (example_default_context ''F2'') (CDPSession ''oop'') example_main_context
        = Inr example_contexts
   \<and> executionContextById 1 (CDPSession ''main'') example_contexts = Inr 0
   \<and> executionContextById 1 (CDPSession ''oop'') example_contexts = Inr 1
   \<and> context_payload (context_store example_contexts 0) = example_default_context ''F1''
   \<and> context_payload (context_store example_contexts 1) = example_default_context ''F2''"
proof -
  have h1: "CDPSession ''main'' \<noteq> CDPSession ''oop''" by simp
  have h2: "description_id (example_default_context ''F1'') = 1" "description_id (example_default_context ''F2'') = 1"
    by (simp_all add: example_default_context_def)
  have h3: "\<not> other_session_frame (example_default_context ''F1'') (CDPSession ''main'') example_oop_page"
    by (simp add: other_session_frame_def context_frame_def example_default_context_def example_oop_page_fields)
  have h4: "\<not> other_session_frame (example_default_context ''F2'') (CDPSession ''oop'') example_oop_page"
    by (simp add: other_session_frame_def context_frame_def example_default_context_def example_oop_page_fields)
  note h5 = example_main_context_created
  note h6 = example_contexts_created
  show ?thesis
    using contexts_are_keyed_by_session_and_id [OF h1 h2 h3 h4 h5 h6] h3 h4 h5 h6
    by (simp add: example_oop_page_fields)
qed

text \<open>
  Claim C4 as stated, for any two events, fails where one of them names a frame of the
  other session: the main session and the session of the out-of-process frame \<open>F2\<close> both
  report the default context of \<open>F2\<close> under the id 1; the handler returns on both events,
  one context object is allocated and indexed, and the lookup for the main session
  throws.
\<close>

theorem other_session_event_indexes_no_context:
  "onExecutionContextCreated (example_default_context ''F2'') (CDPSession ''main'') example_oop_page
     = Inr example_oop_page
   \<and> onExecutionContextCreated (example_default_context ''F2'') (CDPSession ''oop'') example_oop_page
     = Inr example_one_context
   \<and> executionContextById 1 (CDPSession ''main'') example_one_context
     = Inl (JSError ''INTERNAL ERROR: missing context with id = 1'')
   \<and> fm_contextIdToContext example_one_context = [(''oop:1'', 0)]
   \<and> context_next example_one_context = 1"
proof -
  have "other_session_frame (example_default_context ''F2'') (CDPSession ''main'') example_oop_page"
    by (simp add: other_session_frame_def context_frame_def example_default_context_def example_oop_page_fields)
  then have "onExecutionContextCreated (example_default_context ''F2'') (CDPSession ''main'') example_oop_page
     = Inr example_oop_page"
    by (rule created_other_session)
  then show ?thesis
    by (simp add: example_one_context_created example_one_context_fields executionContextById_def
        context_key_def number_to_string_1)
qed

text \<open>
  Claim C8, as the code has it.  An \<^verbatim>\<open>executionContextCreated\<close> event names a tracked
  frame of the session that delivers it.  If \<^verbatim>\<open>auxData.isDefault\<close> is true and the main
  World of the frame holds a context already, the assertion of \<^verbatim>\<open>_setContext\<close> throws and
  the handler is left before the index is written.  In every other case the handler
  returns and the new context is indexed under the session and its id: if
  \<^verbatim>\<open>auxData.isDefault\<close> is true it is bound to the main World (each refers to the other);
  otherwise, if its name is the utility-world name and the secondary World holds no
  context, it is bound to the secondary World; otherwise it has no World and no World
  changes.
\<close>

theorem created_context_is_bound_by_realm:
  assumes "context_frame p st = Some r" and "frame_client (frame_store st r) = session"
  shows "(isDefault p \<and> DOMWorld_hasContext (mainWorld (frame_store st r)) st \<longrightarrow>
            onExecutionContextCreated p session st = Inl (JSError ''Execution Context has already been set.''))
    \<and> (\<not> (isDefault p \<and> DOMWorld_hasContext (mainWorld (frame_store st r)) st) \<longrightarrow>
         (\<exists>st'. onExecutionContextCreated p session st = Inr st'
            \<and> executionContextById (description_id p) session st' = Inr (context_next st)
            \<and> context_client (context_store st' (context_next st)) = session
            \<and> context_payload (context_store st' (context_next st)) = p
            \<and> (isDefault p \<longrightarrow>
                 context_world (context_store st' (context_next st)) = Some (mainWorld (frame_store st r))
                 \<and> world_context (world_store st' (mainWorld (frame_store st r))) = Some (context_next st))
            \<and> (\<not> isDefault p \<and> description_name p = UTILITY_WORLD_NAME
                  \<and> \<not> DOMWorld_hasContext (secondaryWorld (frame_store st r)) st \<longrightarrow>
                 context_world (context_store st' (context_next st)) = Some (secondaryWorld (frame_store st r))
                 \<and> world_context (world_store st' (secondaryWorld (frame_store st r))) = Some (context_next st))
            \<and> (\<not> isDefault p \<and> (description_name p \<noteq> UTILITY_WORLD_NAME
                  \<or> DOMWorld_hasContext (secondaryWorld (frame_store st r)) st) \<longrightarrow>
                 context_world (context_store st' (context_next st)) = None
                 \<and> world_store st' = world_store st)))"
proof -
  from assms have own: "\<not> other_session_frame p session st" by (simp add: other_session_frame_def)
  have ch: "chosen_world p st =
      (if isDefault p then Some (mainWorld (frame_store st r))
       else if description_name p = UTILITY_WORLD_NAME
               \<and> \<not> DOMWorld_hasContext (secondaryWorld (frame_store st r)) st
       then Some (secondaryWorld (frame_store st r)) else None)"
    using assms(1) by (simp add: chosen_world_def)
  have a: "isDefault p \<and> DOMWorld_hasContext (mainWorld (frame_store st r)) st \<longrightarrow>
      onExecutionContextCreated p session st = Inl (JSError ''Execution Context has already been set.'')"
    using created_throws [OF own, of "mainWorld (frame_store st r)"] ch by simp
  have b: "\<not> (isDefault p \<and> DOMWorld_hasContext (mainWorld (frame_store st r)) st) \<longrightarrow>
         (\<exists>st'. onExecutionContextCreated p session st = Inr st'
            \<and> executionContextById (description_id p) session st' = Inr (context_next st)
            \<and> context_client (context_store st' (context_next st)) = session
            \<and> context_payload (context_store st' (context_next st)) = p
            \<and> (isDefault p \<longrightarrow>
                 context_world (context_store st' (context_next st)) = Some (mainWorld (frame_store st r))
                 \<and> world_context (world_store st' (mainWorld (frame_store st r))) = Some (context_next st))
            \<and> (\<not> isDefault p \<and> description_name p = UTILITY_WORLD_NAME
                  \<and> \<not> DOMWorld_hasContext (secondaryWorld (frame_store st r)) st \<longrightarrow>
                 context_world (context_store st' (context_next st)) = Some (secondaryWorld (frame_store st r))
                 \<and> world_context (world_store st' (secondaryWorld (frame_store st r))) = Some (context_next st))
            \<and> (\<not> isDefault p \<and> (description_name p \<noteq> UTILITY_WORLD_NAME
                  \<or> DOMWorld_hasContext (secondaryWorld (frame_store st r)) st) \<longrightarrow>
                 context_world (context_store st' (context_next st)) = None
                 \<and> world_store st' = world_store st))"
  proof
    assume n: "\<not> (isDefault p \<and> DOMWorld_hasContext (mainWorld (frame_store st r)) st)"
    have "\<And>w. chosen_world p st = Some w \<Longrightarrow> \<not> DOMWorld_hasContext w st"
      using n ch by (auto split: if_splits)
    with own obtain st' where c: "onExecutionContextCreated p session st = Inr st'"
      using created_returns by blast
    show "\<exists>st'. onExecutionContextCreated p session st = Inr st'
            \<and> executionContextById (description_id p) session st' = Inr (context_next st)
            \<and> context_client (context_store st' (context_next st)) = session
            \<and> context_payload (context_store st' (context_next st)) = p
            \<and> (isDefault p \<longrightarrow>
                 context_world (context_store st' (context_next st)) = Some (mainWorld (frame_store st r))
                 \<and> world_context (world_store st' (mainWorld (frame_store st r))) = Some (context_next st))
            \<and> (\<not> isDefault p \<and> description_name p = UTILITY_WORLD_NAME
                  \<and> \<not> DOMWorld_hasContext (secondaryWorld (frame_store st r)) st \<longrightarrow>
                 context_world (context_store st' (context_next st)) = Some (secondaryWorld (frame_store st r))
                 \<and> world_context (world_store st' (secondaryWorld (frame_store st r))) = Some (context_next st))
            \<and> (\<not> isDefault p \<and> (description_name p \<noteq> UTILITY_WORLD_NAME
                  \<or> DOMWorld_hasContext (secondaryWorld (frame_store st r)) st) \<longrightarrow>
                 context_world (context_store st' (context_next st)) = None
                 \<and> world_store st' = world_store st)"
      using assms
      by (intro exI [of _ st'])
         (simp add: c executionContextById_def created_index [OF c own] created_store [OF c own]
            created_world_store [OF c own] ch lookup_update)
  qed
  show ?thesis by (rule conjI [OF a b])
qed

theorem created_context_is_bound_by_realm_witness:
  "context_frame (example_default_context ''F1'') example_oop_page = Some 0
   \<and> frame_client (frame_store example_oop_page 0) = CDPSession ''main''
   \<and> isDefault (example_default_context ''F1'')
   \<and> \<not> DOMWorld_hasContext (mainWorld (frame_store example_oop_page 0)) example_oop_page
   \<and> onExecutionContextCreated (example_default_context ''F1'') (CDPSession ''main'') example_oop_page
        = Inr example_main_context
   \<and> executionContextById 1 (CDPSession ''main'') example_main_context = Inr 0
   \<and> context_world (context_store example_main_context 0) = Some 0
   \<and> world_context (world_store example_main_context 0) = Some 0
   \<and> context_frame example_second_context example_contexts = Some 0
   \<and> frame_client (frame_store example_contexts 0) = CDPSession ''main''
   \<and> isDefault example_second_context
   \<and> DOMWorld_hasContext (mainWorld (frame_store example_contexts 0)) example_contexts
   \<and> onExecutionContextCreated example_second_context (CDPSession ''main'') example_contexts
        = Inl (JSError ''Execution Context has already been set.'')
   \<and> context_frame (example_named_context ''F1'' 2 UTILITY_WORLD_NAME) example_contexts = Some 0
   \<and> \<not> isDefault (example_named_context ''F1'' 2 UTILITY_WORLD_NAME)
   \<and> \<not> DOMWorld_hasContext (secondaryWorld (frame_store example_contexts 0)) example_contexts
   \<and> onExecutionContextCreated (example_named_context ''F1'' 2 UTILITY_WORLD_NAME) (CDPSession ''main'')
        example_contexts = Inr example_utility
   \<and> executionContextById 2 (CDPSession ''main'') example_utility = Inr 2
   \<and> context_world (context_store example_utility 2) = Some 1
   \<and> world_context (world_store example_utility 1) = Some 2
   \<and> context_frame (example_named_context ''F1'' 3 UTILITY_WORLD_NAME) example_utility = Some 0
   \<and> frame_client (frame_store example_utility 0) = CDPSession ''main''
   \<and> DOMWorld_hasContext (secondaryWorld (frame_store example_utility 0)) example_utility
   \<and> (\<exists>st'. onExecutionContextCreated (example_named_context ''F1'' 3 UTILITY_WORLD_NAME) (CDPSession ''main'')
               example_utility = Inr st'
         \<and> executionContextById 3 (CDPSession ''main'') st' = Inr 3
         \<and> context_world (context_store st' 3) = None
         \<and> world_store st' = world_store example_utility)
   \<and> context_frame (example_named_context ''F1'' 2 ''other'') example_contexts = Some 0
   \<and> (\<exists>st'. onExecutionContextCreated (example_named_context ''F1'' 2 ''other'') (CDPSession ''main'')
               example_contexts = Inr st'
         \<and> executionContextById 2 (CDPSession ''main'') st' = Inr 2
         \<and> context_world (context_store st' 2) = None
         \<and> world_store st' = world_store example_contexts)"
proof -
  let ?u = "example_named_context ''F1'' 2 UTILITY_WORLD_NAME"
  let ?v = "example_named_context ''F1'' 3 UTILITY_WORLD_NAME"
  let ?o = "example_named_context ''F1'' 2 ''other''"
  have a1: "context_frame (example_default_context ''F1'') example_oop_page = Some 0"
    by (simp add: context_frame_def example_default_context_def example_oop_page_fields)
  have a2: "frame_client (frame_store example_oop_page 0) = CDPSession ''main''"
    by (simp add: example_oop_page_fields)
  have a3: "isDefault (example_default_context ''F1'')"
    by (simp add: isDefault_def example_default_context_def)
  have a4: "\<not> DOMWorld_hasContext (mainWorld (frame_store example_oop_page 0)) example_oop_page"
    by (simp add: DOMWorld_hasContext_def example_oop_page_fields)
  have a5: "description_id (example_default_context ''F1'') = 1" by (simp add: example_default_context_def)
  note a6 = example_main_context_created
  from a4 have a7: "\<not> (isDefault (example_default_context ''F1'')
      \<and> DOMWorld_hasContext (mainWorld (frame_store example_oop_page 0)) example_oop_page)" by simp
  have a: "executionContextById 1 (CDPSession ''main'') example_main_context = Inr 0
      \<and> context_world (context_store example_main_context 0) = Some 0
      \<and> world_context (world_store example_main_context 0) = Some 0"
    using created_context_is_bound_by_realm [OF a1 a2, THEN conjunct2, rule_format, OF a7] a3
    by (auto simp add: a6 a5 example_oop_page_fields)
  have b1: "context_frame example_second_context example_contexts = Some 0"
    by (simp add: context_frame_def example_second_context_def example_contexts_fields)
  have b2: "frame_client (frame_store example_contexts 0) = CDPSession ''main''"
    by (simp add: example_contexts_fields example_oop_page_fields)
  have b3: "isDefault example_second_context"
    by (simp add: isDefault_def example_second_context_def)
  have b4: "DOMWorld_hasContext (mainWorld (frame_store example_contexts 0)) example_contexts"
    by (simp add: DOMWorld_hasContext_def example_contexts_fields example_oop_page_fields)
  have b: "onExecutionContextCreated example_second_context (CDPSession ''main'') example_contexts
        = Inl (JSError ''Execution Context has already been set.'')"
    using created_context_is_bound_by_realm [OF b1 b2, THEN conjunct1, rule_format] b3 b4 by blast
  have c1: "context_frame ?u example_contexts = Some 0"
    by (simp add: context_frame_def example_named_context_def example_contexts_fields)
  have c3: "\<not> isDefault ?u"
    by (simp add: isDefault_def example_named_context_def)
  have c4: "\<not> DOMWorld_hasContext (secondaryWorld (frame_store example_contexts 0)) example_contexts"
    by (simp add: DOMWorld_hasContext_def example_contexts_fields example_oop_page_fields)
  have c5: "description_id ?u = 2" "description_name ?u = UTILITY_WORLD_NAME"
    by (simp_all add: example_named_context_def)
  note c6 = example_utility_created
  from c3 have c7: "\<not> (isDefault ?u
      \<and> DOMWorld_hasContext (mainWorld (frame_store example_contexts 0)) example_contexts)" by simp
  have c: "executionContextById 2 (CDPSession ''main'') example_utility = Inr 2
      \<and> context_world (context_store example_utility 2) = Some 1
      \<and> world_context (world_store example_utility 1) = Some 2"
    using created_context_is_bound_by_realm [OF c1 b2, THEN conjunct2, rule_format, OF c7] c3 c4
    by (auto simp add: c6 c5 example_contexts_fields example_oop_page_fields)
  have d1: "context_frame ?v example_utility = Some 0"
    by (simp add: context_frame_def example_named_context_def example_utility_fields)
  have d2: "frame_client (frame_store example_utility 0) = CDPSession ''main''"
    by (simp add: example_utility_fields example_oop_page_fields)
  have d3: "\<not> isDefault ?v"
    by (simp add: isDefault_def example_named_context_def)
  have d4: "DOMWorld_hasContext (secondaryWorld (frame_store example_utility 0)) example_utility"
    by (simp add: DOMWorld_hasContext_def example_utility_fields example_oop_page_fields)
  have d5: "description_id ?v = 3" by (simp add: example_named_context_def)
  from d3 have d7: "\<not> (isDefault ?v
      \<and> DOMWorld_hasContext (mainWorld (frame_store example_utility 0)) example_utility)" by simp
  have d: "\<exists>st'. onExecutionContextCreated ?v (CDPSession ''main'') example_utility = Inr st'
         \<and> executionContextById 3 (CDPSession ''main'') st' = Inr 3
         \<and> context_world (context_store st' 3) = None
         \<and> world_store st' = world_store example_utility"
    using created_context_is_bound_by_realm [OF d1 d2, THEN conjunct2, rule_format, OF d7] d3 d4
    by (auto simp add: d5 example_utility_fields)
  have e1: "context_frame ?o example_contexts = Some 0"
    by (simp add: context_frame_def example_named_context_def example_contexts_fields)
  have e3: "\<not> isDefault ?o"
    by (simp add: isDefault_def example_named_context_def)
  have e4: "description_name ?o \<noteq> UTILITY_WORLD_NAME"
    by (simp add: example_named_context_def UTILITY_WORLD_NAME_def)
  have e5: "description_id ?o = 2" by (simp add: example_named_context_def)
  from e3 have e7: "\<not> (isDefault ?o
      \<and> DOMWorld_hasContext (mainWorld (frame_store example_contexts 0)) example_contexts)" by simp
  have e: "\<exists>st'. onExecutionContextCreated ?o (CDPSession ''main'') example_contexts = Inr st'
         \<and> executionContextById 2 (CDPSession ''main'') st' = Inr 2
         \<and> context_world (context_store st' 2) = None
         \<and> world_store st' = world_store example_contexts"
    using created_context_is_bound_by_realm [OF e1 b2, THEN conjunct2, rule_format, OF e7] e3 e4
    by (auto simp add: e5 example_contexts_fields)
  show ?thesis
    using a1 a2 a3 a4 a6 a b1 b2 b3 b4 b c1 c3 c4 c6 c d1 d2 d4 d e1 e by blast
qed

text \<open>
  Claim C8 as stated fails where the main World holds a context: on \<open>example_contexts\<close>
  the main session reports a second default context of its frame \<open>F1\<close>, whose main World
  holds the first one.  The handler throws; no context is bound or indexed.
\<close>

theorem second_default_context_is_not_bound:
  "context_frame example_second_context example_contexts = Some 0
   \<and> frame_client (frame_store example_contexts 0) = CDPSession ''main''
   \<and> isDefault example_second_context
   \<and> world_context (world_store example_contexts (mainWorld (frame_store example_contexts 0))) = Some 0
   \<and> onExecutionContextCreated example_second_context (CDPSession ''main'') example_contexts
        = Inl (JSError ''Execution Context has already been set.'')"
proof -
  have own: "\<not> other_session_frame example_second_context (CDPSession ''main'') example_contexts"
    by (simp add: other_session_frame_def context_frame_def example_second_context_def
        example_contexts_fields example_oop_page_fields)
  have ch: "chosen_world example_second_context example_contexts = Some 0"
    by (simp add: chosen_world_def context_frame_def isDefault_def example_second_context_def
        example_contexts_fields example_oop_page_fields)
  have "DOMWorld_hasContext 0 example_contexts"
    by (simp add: DOMWorld_hasContext_def example_contexts_fields)
  from created_throws [OF own ch this] show ?thesis
    by (simp add: context_frame_def isDefault_def example_second_context_def
        example_contexts_fields example_oop_page_fields)
qed

lemma clear_contexts_context_store:
  "context_store (clear_contexts s es st) = context_store st"
  by (induction s es st rule: clear_contexts.induct)
     (simp_all add: store_defs Let_def split: option.splits)

lemma clear_contexts_index:
  "fm_contextIdToContext (clear_contexts s es st) =
     filter (\<lambda>e. fst e \<notin> fst ` {x \<in> set es. context_client (context_store st (snd x)) = s})
       (fm_contextIdToContext st)"
proof (induction s es st rule: clear_contexts.induct)
  case (1 session st)
  then show ?case by simp
next
  case (2 session key "context" entries st)
  show ?case
  proof (cases "context_client (context_store st context) \<noteq> session")
    case True
    then have "{x \<in> set ((key, context) # entries). context_client (context_store st (snd x)) = session}
        = {x \<in> set entries. context_client (context_store st (snd x)) = session}"
      by auto
    with True 2 show ?thesis by simp
  next
    case False
    let ?st1 = "case context_world (context_store st context) of None \<Rightarrow> st
                | Some w \<Rightarrow> DOMWorld_setContext_null w st"
    let ?st2 = "?st1\<lparr>fm_contextIdToContext := AList.delete key (fm_contextIdToContext ?st1)\<rparr>"
    have cs: "context_store ?st2 = context_store st" and idx: "fm_contextIdToContext ?st1 = fm_contextIdToContext st"
      by (simp_all add: store_defs split: option.splits)
    from False 2 have "fm_contextIdToContext (clear_contexts session ((key, context) # entries) st) =
      filter (\<lambda>e. fst e \<notin> fst ` {x \<in> set entries. context_client (context_store ?st2 (snd x)) = session})
        (fm_contextIdToContext ?st2)"
      by (simp add: Let_def)
    also have "\<dots> = filter (\<lambda>e. fst e \<notin> fst ` {x \<in> set entries. context_client (context_store st (snd x)) = session})
        (filter (\<lambda>e. fst e \<noteq> key) (fm_contextIdToContext st))"
      by (simp only: cs) (auto simp add: idx AList.delete_eq case_prod_unfold intro!: filter_cong)
    also have "\<dots> = filter (\<lambda>e. fst e \<notin> insert key (fst ` {x \<in> set entries. context_client (context_store st (snd x)) = session}))
       (fm_contextIdToContext st)"
      by (auto intro!: filter_cong)
    also have "insert key (fst ` {x \<in> set entries. context_client (context_store st (snd x)) = session})
        = fst ` {x \<in> set ((key, context) # entries). context_client (context_store st (snd x)) = session}"
      using False by force
    finally show ?thesis .
  qed
qed

lemma clear_contexts_world_store:
  "world_store (clear_contexts s es st) w =
     (if \<exists>x \<in> set es. context_client (context_store st (snd x)) = s \<and> context_world (context_store st (snd x)) = Some w
      then (world_store st w)\<lparr>world_context := None\<rparr> else world_store st w)"
proof (induction s es st arbitrary: w rule: clear_contexts.induct)
  case (1 session st)
  then show ?case by simp
next
  case (2 session key "context" entries st)
  show ?case
  proof (cases "context_client (context_store st context) \<noteq> session")
    case True
    with 2 show ?thesis by auto
  next
    case False
    let ?st1 = "case context_world (context_store st context) of None \<Rightarrow> st
                | Some w \<Rightarrow> DOMWorld_setContext_null w st"
    let ?st2 = "?st1\<lparr>fm_contextIdToContext := AList.delete key (fm_contextIdToContext ?st1)\<rparr>"
    have cs: "context_store ?st2 = context_store st"
      by (simp add: store_defs split: option.splits)
    have ws: "world_store ?st2 w = (if context_world (context_store st context) = Some w
        then (world_store st w)\<lparr>world_context := None\<rparr> else world_store st w)"
      by (simp add: store_defs split: option.splits)
    from False 2 have "world_store (clear_contexts session ((key, context) # entries) st) w =
       (if \<exists>x \<in> set entries. context_client (context_store ?st2 (snd x)) = session \<and> context_world (context_store ?st2 (snd x)) = Some w
      then (world_store ?st2 w)\<lparr>world_context := None\<rparr> else world_store ?st2 w)"
      by (simp add: Let_def)
    then show ?thesis using False by (simp only: cs ws) auto
  qed
qed

lemma clear_contexts_frame:
  "fm_frames (clear_contexts s es st) = fm_frames st \<and> frame_store (clear_contexts s es st) = frame_store st
   \<and> fm_mainFrame (clear_contexts s es st) = fm_mainFrame st \<and> emitted (clear_contexts s es st) = emitted st"
  by (induction s es st rule: clear_contexts.induct)
     (simp_all add: store_defs Let_def split: option.splits)

text \<open>The keys of the context index stay distinct under the three handlers.\<close>

lemma distinct_index_kept:
  assumes "distinct (map fst (fm_contextIdToContext st))"
  shows "onExecutionContextCreated p s st = Inr st' \<longrightarrow> distinct (map fst (fm_contextIdToContext st'))"
    and "distinct (map fst (fm_contextIdToContext (onExecutionContextDestroyed i s st)))"
    and "distinct (map fst (fm_contextIdToContext (onExecutionContextsCleared s st)))"
proof -
  show "onExecutionContextCreated p s st = Inr st' \<longrightarrow> distinct (map fst (fm_contextIdToContext st'))"
  proof
    assume c: "onExecutionContextCreated p s st = Inr st'"
    show "distinct (map fst (fm_contextIdToContext st'))"
    proof (cases "other_session_frame p s st")
      case True
      with c assms show ?thesis by (simp add: created_other_session)
    next
      case False
      with assms show ?thesis by (simp add: created_index [OF c False] AList.distinct_update)
    qed
  qed
  show "distinct (map fst (fm_contextIdToContext (onExecutionContextDestroyed i s st)))"
    using assms
    by (simp add: onExecutionContextDestroyed_def store_defs Let_def AList.distinct_delete
        split: option.splits)
  show "distinct (map fst (fm_contextIdToContext (onExecutionContextsCleared s st)))"
    using assms
    by (simp add: onExecutionContextsCleared_def clear_contexts_index distinct_map_filter)
qed

text \<open>
  Claim C9.  \<^verbatim>\<open>executionContextsCleared\<close> of a session keeps in the index exactly the
  entries whose context has another client, in their order and with their values; no
  context object changes; the World bound to a removed context loses its context and no
  other World changes.  The keys of the index are distinct, as those of a \<^verbatim>\<open>Map\<close> are.
\<close>

theorem cleared_contexts_are_those_of_the_session:
  assumes "distinct (map fst (fm_contextIdToContext st))"
  shows "fm_contextIdToContext (onExecutionContextsCleared session st) =
           filter (\<lambda>e. context_client (context_store st (snd e)) \<noteq> session) (fm_contextIdToContext st)
    \<and> context_store (onExecutionContextsCleared session st) = context_store st
    \<and> (\<forall>w. world_store (onExecutionContextsCleared session st) w =
          (if \<exists>e \<in> set (fm_contextIdToContext st).
                 context_client (context_store st (snd e)) = session
                 \<and> context_world (context_store st (snd e)) = Some w
           then (world_store st w)\<lparr>world_context := None\<rparr> else world_store st w))"
proof -
  have "filter (\<lambda>e. fst e \<notin> fst ` {x \<in> set (fm_contextIdToContext st). context_client (context_store st (snd x)) = session})
       (fm_contextIdToContext st) = filter (\<lambda>e. context_client (context_store st (snd e)) \<noteq> session) (fm_contextIdToContext st)"
  proof (rule filter_cong [OF refl])
    fix e assume e: "e \<in> set (fm_contextIdToContext st)"
    obtain k c where kc: "e = (k, c)" by (cases e)
    have uniq: "c' = c" if "(k, c') \<in> set (fm_contextIdToContext st)" for c'
      using assms that e kc by (metis eq_key_imp_eq_value)
    have "(k \<in> fst ` {x \<in> set (fm_contextIdToContext st). context_client (context_store st (snd x)) = session})
       = (context_client (context_store st c) = session)"
    proof
      assume "k \<in> fst ` {x \<in> set (fm_contextIdToContext st). context_client (context_store st (snd x)) = session}"
      then obtain c' where "(k, c') \<in> set (fm_contextIdToContext st)" "context_client (context_store st c') = session"
        by auto
      with uniq show "context_client (context_store st c) = session" by blast
    next
      assume "context_client (context_store st c) = session"
      with e kc show "k \<in> fst ` {x \<in> set (fm_contextIdToContext st). context_client (context_store st (snd x)) = session}"
        by force
    qed
    then show "(fst e \<notin> fst ` {x \<in> set (fm_contextIdToContext st). context_client (context_store st (snd x)) = session})
       = (context_client (context_store st (snd e)) \<noteq> session)"
      by (simp add: kc)
  qed
  then show ?thesis
    by (simp add: onExecutionContextsCleared_def clear_contexts_index clear_contexts_context_store
        clear_contexts_world_store)
qed

theorem cleared_contexts_are_those_of_the_session_witness:
  "distinct (map fst (fm_contextIdToContext example_contexts))
   \<and> fm_contextIdToContext (onExecutionContextsCleared (CDPSession ''oop'') example_contexts) = [(''main:1'', 0)]
   \<and> context_store (onExecutionContextsCleared (CDPSession ''oop'') example_contexts) = context_store example_contexts
   \<and> world_context (world_store (onExecutionContextsCleared (CDPSession ''oop'') example_contexts) 4) = None
   \<and> world_context (world_store (onExecutionContextsCleared (CDPSession ''oop'') example_contexts) 0) = Some 0"
proof -
  have h: "distinct (map fst (fm_contextIdToContext example_contexts))"
    by (simp add: example_contexts_fields)
  show ?thesis
    using cleared_contexts_are_those_of_the_session [OF h, of "CDPSession ''oop''"] h
    by (simp add: example_contexts_fields)
qed

section \<open>Detaching one frame\<close>

lemma detach_and_delete_fields:
  "frame_next (detach_and_delete x s) = frame_next s"
  "fm_mainFrame (detach_and_delete x s) = fm_mainFrame s"
  "fm_client (detach_and_delete x s) = fm_client s"
  "fm_contextIdToContext (detach_and_delete x s) = fm_contextIdToContext s"
  "context_store (detach_and_delete x s) = context_store s"
  "emitted (detach_and_delete x s) = emitted s @ [FrameDetached x]"
  "fm_frames (detach_and_delete x s) = AList.delete (frame_id (frame_store s x)) (fm_frames s)"
  by (simp_all add: detach_and_delete_def Frame_detach_def store_defs Let_def split: option.splits)

lemma detach_and_delete_frame:
  "frame_id (frame_store (detach_and_delete x s) y) = frame_id (frame_store s y)"
  "parentFrame (frame_store (detach_and_delete x s) y) = (if y = x then None else parentFrame (frame_store s y))"
  "frame_detached (frame_store (detach_and_delete x s) y) = (y = x \<or> frame_detached (frame_store s y))"
  "childFrames (frame_store (detach_and_delete x s) y) =
     (if parentFrame (frame_store s x) = Some y then removeAll x (childFrames (frame_store s y))
      else childFrames (frame_store s y))"
  by (simp_all add: detach_and_delete_def Frame_detach_def store_defs Let_def split: option.splits)

lemma detach_and_delete_children:
  assumes "tree_ok s"
  shows "childFrames (frame_store (detach_and_delete x s) y) = removeAll x (childFrames (frame_store s y))"
proof (cases "x \<in> set (childFrames (frame_store s y))")
  case True
  with assms have "parentFrame (frame_store s x) = Some y" by (simp add: tree_ok_def)
  then show ?thesis by (simp add: detach_and_delete_frame)
next
  case False
  then show ?thesis by (simp add: detach_and_delete_frame)
qed

lemma tree_ok_detach_and_delete:
  assumes "tree_ok s"
  shows "tree_ok (detach_and_delete x s)"
  unfolding tree_ok_def
proof (intro allI conjI ballI)
  fix y
  show "distinct (childFrames (frame_store (detach_and_delete x s) y))"
    using assms by (simp add: detach_and_delete_children [OF assms] tree_ok_def distinct_removeAll)
  fix c assume "c \<in> set (childFrames (frame_store (detach_and_delete x s) y))"
  then have c: "c \<in> set (childFrames (frame_store s y))" "c \<noteq> x"
    by (simp_all add: detach_and_delete_children [OF assms])
  with assms show "y < c" "c < frame_next (detach_and_delete x s)"
    "parentFrame (frame_store (detach_and_delete x s) c) = Some y"
    by (simp_all add: tree_ok_def detach_and_delete_fields detach_and_delete_frame)
qed


section \<open>Detaching a list of frames\<close>

lemma detach_all_append: "detach_all (xs @ ys) st = detach_all ys (detach_all xs st)"
  by (induction xs arbitrary: st) simp_all

lemma tree_ok_detach_all: "tree_ok st \<Longrightarrow> tree_ok (detach_all xs st)"
  by (induction xs arbitrary: st) (simp_all add: tree_ok_detach_and_delete)

lemma detach_all_fields:
  "frame_next (detach_all xs st) = frame_next st"
  "fm_mainFrame (detach_all xs st) = fm_mainFrame st"
  "fm_client (detach_all xs st) = fm_client st"
  "fm_contextIdToContext (detach_all xs st) = fm_contextIdToContext st"
  "context_store (detach_all xs st) = context_store st"
  "emitted (detach_all xs st) = emitted st @ map FrameDetached xs"
  "frame_id (frame_store (detach_all xs st) y) = frame_id (frame_store st y)"
  by (induction xs arbitrary: st) (simp_all add: detach_and_delete_fields detach_and_delete_frame)

lemma detach_all_detached:
  "frame_detached (frame_store (detach_all xs st) y) = (y \<in> set xs \<or> frame_detached (frame_store st y))"
  by (induction xs arbitrary: st) (auto simp add: detach_and_delete_frame)

lemma detach_all_children:
  "tree_ok st \<Longrightarrow>
   childFrames (frame_store (detach_all xs st) y) = filter (\<lambda>c. c \<notin> set xs) (childFrames (frame_store st y))"
proof (induction xs arbitrary: st)
  case Nil
  then show ?case by simp
next
  case (Cons x xs)
  have "childFrames (frame_store (detach_all (x # xs) st) y) =
      filter (\<lambda>c. c \<notin> set xs) (removeAll x (childFrames (frame_store st y)))"
    using Cons.IH [OF tree_ok_detach_and_delete [OF Cons.prems]]
    by (simp add: detach_and_delete_children [OF Cons.prems])
  also have "\<dots> = filter (\<lambda>c. c \<notin> set (x # xs)) (childFrames (frame_store st y))"
    by (auto simp add: removeAll_filter_not_eq intro!: filter_cong)
  finally show ?case .
qed

lemma detach_all_index:
  "fm_frames (detach_all xs st) =
     filter (\<lambda>e. fst e \<notin> (\<lambda>x. frame_id (frame_store st x)) ` set xs) (fm_frames st)"
proof (induction xs arbitrary: st)
  case Nil
  then show ?case by simp
next
  case (Cons x xs)
  have "fm_frames (detach_all (x # xs) st) =
     filter (\<lambda>e. fst e \<notin> (\<lambda>x. frame_id (frame_store st x)) ` set xs)
       (filter (\<lambda>e. fst e \<noteq> frame_id (frame_store st x)) (fm_frames st))"
    by (simp add: Cons.IH detach_and_delete_fields detach_and_delete_frame AList.delete_eq
        case_prod_unfold neq_commute)
  also have "\<dots> = filter (\<lambda>e. fst e \<notin> (\<lambda>x. frame_id (frame_store st x)) ` set (x # xs)) (fm_frames st)"
    by (auto intro!: filter_cong)
  finally show ?case .
qed

section \<open>The subtree of a frame\<close>

lemma subtree_child_subset:
  assumes "c \<in> set (childFrames (frame_store st r))"
  shows "subtree st c \<subseteq> subtree st r"
proof
  fix x assume "x \<in> subtree st c"
  then show "x \<in> subtree st r"
  proof induction
    case root
    from subtree.root assms show ?case by (rule subtree.child)
  next
    case (child x d)
    then show ?case by (blast intro: subtree.child)
  qed
qed

lemma subtree_unfold:
  "subtree st r = insert r (\<Union>c \<in> set (childFrames (frame_store st r)). subtree st c)"
proof (intro equalityI subsetI)
  fix x assume "x \<in> subtree st r"
  then show "x \<in> insert r (\<Union>c \<in> set (childFrames (frame_store st r)). subtree st c)"
  proof induction
    case root
    then show ?case by simp
  next
    case (child x d)
    show ?case
    proof (cases "x = r")
      case True
      with child.hyps(2) subtree.root [of d st] show ?thesis by blast
    next
      case False
      with child.IH obtain c where "c \<in> set (childFrames (frame_store st r))" "x \<in> subtree st c"
        by blast
      with child.hyps(2) show ?thesis by (blast intro: subtree.child)
    qed
  qed
next
  fix x assume "x \<in> insert r (\<Union>c \<in> set (childFrames (frame_store st r)). subtree st c)"
  then show "x \<in> subtree st r"
    using subtree_child_subset subtree.root by blast
qed

lemma tree_okD:
  "tree_ok st \<Longrightarrow> c \<in> set (childFrames (frame_store st r)) \<Longrightarrow>
   r < c \<and> c < frame_next st \<and> parentFrame (frame_store st c) = Some r"
  by (simp add: tree_ok_def)

lemma subtree_ge:
  assumes "tree_ok st" and "x \<in> subtree st r"
  shows "r \<le> x"
  using assms(2)
proof induction
  case root
  then show ?case by simp
next
  case (child x c)
  with tree_okD [OF assms(1) child.hyps(2)] show ?case by simp
qed

lemma subtree_parent:
  assumes "x \<in> subtree st r" and "x \<noteq> r"
  shows "\<exists>y \<in> subtree st r. x \<in> set (childFrames (frame_store st y))"
  using assms by (induction rule: subtree.induct) auto

lemma subtree_siblings_disjoint:
  assumes ok: "tree_ok st"
    and c: "c \<in> set (childFrames (frame_store st r))"
    and d: "d \<in> set (childFrames (frame_store st r))"
    and neq: "c \<noteq> d"
  shows "subtree st c \<inter> subtree st d = {}"
proof -
  have "x \<in> subtree st c \<Longrightarrow> x \<in> subtree st d \<Longrightarrow> False" for x
  proof (induction x rule: less_induct)
    case (less x)
    from ok c d have pc: "parentFrame (frame_store st c) = Some r" "r < c"
      and pd: "parentFrame (frame_store st d) = Some r" "r < d"
      by (simp_all add: tree_ok_def)
    show ?case
    proof (cases "x = c")
      case True
      with less.prems(2) neq obtain y where y: "y \<in> subtree st d" "c \<in> set (childFrames (frame_store st y))"
        using subtree_parent by blast
      with ok have "parentFrame (frame_store st c) = Some y" by (simp add: tree_ok_def)
      with pc have "y = r" by simp
      with y(1) subtree_ge [OF ok] have "d \<le> r" by blast
      with pd show False by simp
    next
      case False
      note xc = this
      show False
      proof (cases "x = d")
        case True
        with less.prems(1) neq obtain y where y: "y \<in> subtree st c" "d \<in> set (childFrames (frame_store st y))"
          using subtree_parent by blast
        with ok have "parentFrame (frame_store st d) = Some y" by (simp add: tree_ok_def)
        with pd have "y = r" by simp
        with y(1) subtree_ge [OF ok] have "c \<le> r" by blast
        with pc show False by simp
      next
        case False
        from less.prems(1) xc obtain y where y: "y \<in> subtree st c" "x \<in> set (childFrames (frame_store st y))"
          using subtree_parent by blast
        from less.prems(2) False obtain z where z: "z \<in> subtree st d" "x \<in> set (childFrames (frame_store st z))"
          using subtree_parent by blast
        from tree_okD [OF ok y(2)] tree_okD [OF ok z(2)]
        have "parentFrame (frame_store st x) = Some y" "parentFrame (frame_store st x) = Some z" "y < x"
          by simp_all
        then have "z = y" "y < x" by simp_all
        with less.IH [of y] y(1) z(1) show False by simp
      qed
    qed
  qed
  then show ?thesis by blast
qed

section \<open>The post-order\<close>

lemma postorder_subset: "set (postorder n st r) \<subseteq> subtree st r"
proof (induction n arbitrary: r)
  case 0
  then show ?case by simp
next
  case (Suc n)
  show ?case
    using Suc.IH subtree_child_subset [of _ st r] subtree.root [of r st] by (auto 4 3)
qed

lemma postorder_full:
  "tree_ok st \<Longrightarrow> r < frame_next st \<Longrightarrow> frame_next st - r \<le> n \<Longrightarrow> subtree st r \<subseteq> set (postorder n st r)"
proof (induction n arbitrary: r)
  case 0
  then show ?case by simp
next
  case (Suc n)
  have "subtree st c \<subseteq> set (postorder n st c)" if "c \<in> set (childFrames (frame_store st r))" for c
  proof -
    from Suc.prems(1) that have "r < c" "c < frame_next st" by (simp_all add: tree_ok_def)
    with Suc.prems(3) have "frame_next st - c \<le> n" by simp
    with Suc.IH [OF Suc.prems(1) \<open>c < frame_next st\<close>] show ?thesis .
  qed
  then show ?case
    by (subst subtree_unfold) auto
qed

lemma postorder_cong:
  "(\<And>y. y \<in> subtree st r \<Longrightarrow> childFrames (frame_store s y) = childFrames (frame_store st y)) \<Longrightarrow>
   postorder n s r = postorder n st r"
proof (induction n arbitrary: r)
  case 0
  then show ?case by simp
next
  case (Suc n)
  have r: "childFrames (frame_store s r) = childFrames (frame_store st r)"
    using Suc.prems [OF subtree.root] .
  have "postorder n s c = postorder n st c" if "c \<in> set (childFrames (frame_store st r))" for c
    using that Suc.prems subtree_child_subset [OF that] by (intro Suc.IH) blast
  then show ?case by (simp add: r cong: map_cong)
qed


section \<open>The recursion removes the post-order\<close>

lemma remove_children_step:
  assumes IH: "\<And>c s. tree_ok s \<Longrightarrow> c < frame_next s \<Longrightarrow> frame_next s - c \<le> n \<Longrightarrow>
                 removeFramesRecursively n c s = Some (detach_all (postorder n s c) s)"
    and ok: "tree_ok st"
    and fuel: "\<And>c. c \<in> set (childFrames (frame_store st r)) \<Longrightarrow> frame_next st - c \<le> n"
  shows "childFrames (frame_store st r) = done @ ds \<Longrightarrow>
         for_each (\<lambda>child s. removeFramesRecursively n child s) ds
           (detach_all (concat (map (postorder n st) done)) st)
         = Some (detach_all (concat (map (postorder n st) (childFrames (frame_store st r)))) st)"
proof (induction ds arbitrary: "done")
  case Nil
  then show ?case by simp
next
  case (Cons c ds)
  let ?X = "concat (map (postorder n st) done)"
  let ?s = "detach_all ?X st"
  from Cons.prems have c: "c \<in> set (childFrames (frame_store st r))" by simp
  from ok have dist: "distinct (childFrames (frame_store st r))" by (simp add: tree_ok_def)
  with Cons.prems have c_new: "c \<notin> set done" by auto
  have ok_s: "tree_ok ?s" using ok by (rule tree_ok_detach_all)
  have lt: "c < frame_next ?s"
    using tree_okD [OF ok c] by (simp add: detach_all_fields)
  have fl: "frame_next ?s - c \<le> n"
    using fuel [OF c] by (simp add: detach_all_fields)
  have X: "set ?X \<subseteq> (\<Union>d \<in> set done. subtree st d)"
    using postorder_subset by fastforce
  have same: "childFrames (frame_store ?s y) = childFrames (frame_store st y)" if y: "y \<in> subtree st c" for y
  proof -
    have "e \<notin> set ?X" if e: "e \<in> set (childFrames (frame_store st y))" for e
    proof
      assume "e \<in> set ?X"
      with X obtain d where d: "d \<in> set done" "e \<in> subtree st d" by blast
      from d(1) Cons.prems have d_child: "d \<in> set (childFrames (frame_store st r))" by simp
      from d(1) c_new have "c \<noteq> d" by blast
      from subtree_siblings_disjoint [OF ok c d_child this] d(2) subtree.child [OF y e]
      show False by blast
    qed
    then show ?thesis by (simp add: detach_all_children [OF ok] filter_id_conv)
  qed
  have "removeFramesRecursively n c ?s = Some (detach_all (postorder n ?s c) ?s)"
    using ok_s lt fl by (rule IH)
  also have "postorder n ?s c = postorder n st c"
    using same by (rule postorder_cong)
  also have "detach_all (postorder n st c) ?s = detach_all (concat (map (postorder n st) (done @ [c]))) st"
    by (simp add: detach_all_append)
  finally have step: "removeFramesRecursively n c ?s =
      Some (detach_all (concat (map (postorder n st) (done @ [c]))) st)" .
  from Cons.prems have "childFrames (frame_store st r) = (done @ [c]) @ ds" by simp
  from Cons.IH [OF this] step show ?case by simp
qed

lemma remove_children:
  assumes IH: "\<And>c s. tree_ok s \<Longrightarrow> c < frame_next s \<Longrightarrow> frame_next s - c \<le> n \<Longrightarrow>
                 removeFramesRecursively n c s = Some (detach_all (postorder n s c) s)"
    and ok: "tree_ok st"
    and fuel: "\<And>c. c \<in> set (childFrames (frame_store st r)) \<Longrightarrow> frame_next st - c \<le> n"
  shows "for_each (\<lambda>child s. removeFramesRecursively n child s) (childFrames (frame_store st r)) st
         = Some (detach_all (concat (map (postorder n st) (childFrames (frame_store st r)))) st)"
  using remove_children_step [OF IH ok fuel, of r "[]" "childFrames (frame_store st r)"] by simp

lemma removeFramesRecursively_postorder:
  "tree_ok st \<Longrightarrow> r < frame_next st \<Longrightarrow> frame_next st - r \<le> n \<Longrightarrow>
   removeFramesRecursively n r st = Some (detach_all (postorder n st r) st)"
proof (induction n arbitrary: r st)
  case 0
  then show ?case by simp
next
  case (Suc n)
  have fuel: "frame_next st - c \<le> n" if "c \<in> set (childFrames (frame_store st r))" for c
    using tree_okD [OF Suc.prems(1) that] Suc.prems(3) by arith
  have "for_each (\<lambda>child s. removeFramesRecursively n child s) (childFrames (frame_store st r)) st
         = Some (detach_all (concat (map (postorder n st) (childFrames (frame_store st r)))) st)"
    using Suc.IH Suc.prems(1) fuel by (rule remove_children)
  then show ?case by (simp add: detach_all_append)
qed

lemma remove_children_of:
  assumes ok: "tree_ok st" and fuel: "frame_next st \<le> n"
  shows "for_each (\<lambda>child s. removeFramesRecursively n child s) (childFrames (frame_store st r)) st
         = Some (detach_all (concat (map (postorder n st) (childFrames (frame_store st r)))) st)"
proof (rule remove_children [OF _ ok])
  fix c s assume "tree_ok s" "c < frame_next s" "frame_next s - c \<le> n"
  then show "removeFramesRecursively n c s = Some (detach_all (postorder n s c) s)"
    by (rule removeFramesRecursively_postorder)
next
  fix c assume "c \<in> set (childFrames (frame_store st r))"
  with fuel show "frame_next st - c \<le> n" by simp
qed


lemma postorder_root: "0 < n \<Longrightarrow> r \<in> set (postorder n st r)"
  by (cases n) simp_all

lemma distinct_concat_map:
  "distinct cs \<Longrightarrow> (\<And>c. c \<in> set cs \<Longrightarrow> distinct (f c)) \<Longrightarrow>
   (\<And>c d. c \<in> set cs \<Longrightarrow> d \<in> set cs \<Longrightarrow> c \<noteq> d \<Longrightarrow> set (f c) \<inter> set (f d) = {}) \<Longrightarrow>
   distinct (concat (map f cs))"
proof (induction cs)
  case Nil
  then show ?case by simp
next
  case (Cons c cs)
  have "set (f c) \<inter> set (f d) = {}" if "d \<in> set cs" for d
    using Cons.prems(1) that by (intro Cons.prems(3)) auto
  moreover have "distinct (concat (map f cs))"
    using Cons.prems by (intro Cons.IH) auto
  ultimately show ?case using Cons.prems(2) [of c] by auto
qed

lemma postorder_distinct: "tree_ok st \<Longrightarrow> distinct (postorder n st r)"
proof (induction n arbitrary: r)
  case 0
  then show ?case by simp
next
  case (Suc n)
  let ?cs = "childFrames (frame_store st r)"
  have "distinct (concat (map (postorder n st) ?cs))"
  proof (rule distinct_concat_map)
    show "distinct ?cs" using Suc.prems by (simp add: tree_ok_def)
    show "distinct (postorder n st c)" for c using Suc by simp
    fix c d assume "c \<in> set ?cs" "d \<in> set ?cs" "c \<noteq> d"
    from subtree_siblings_disjoint [OF Suc.prems this]
    show "set (postorder n st c) \<inter> set (postorder n st d) = {}"
      using postorder_subset [of n st c] postorder_subset [of n st d] by blast
  qed
  moreover have "r \<notin> set (postorder n st c)" if "c \<in> set ?cs" for c
  proof
    assume "r \<in> set (postorder n st c)"
    with postorder_subset have "r \<in> subtree st c" by blast
    with subtree_ge [OF Suc.prems] tree_okD [OF Suc.prems that] show False by fastforce
  qed
  ultimately show ?case by auto
qed

lemma postorder_children_first:
  "tree_ok st \<Longrightarrow> r < frame_next st \<Longrightarrow> frame_next st - r \<le> n \<Longrightarrow>
   x \<in> set (postorder n st r) \<Longrightarrow> c \<in> set (childFrames (frame_store st x)) \<Longrightarrow>
   \<exists>ys zs. postorder n st r = ys @ x # zs \<and> c \<in> set ys"
proof (induction n arbitrary: r)
  case 0
  then show ?case by simp
next
  case (Suc n)
  let ?cs = "childFrames (frame_store st r)"
  have fuel: "d < frame_next st \<and> frame_next st - d \<le> n" if "d \<in> set ?cs" for d
    using tree_okD [OF Suc.prems(1) that] Suc.prems(3) by arith
  show ?case
  proof (cases "x = r")
    case True
    with Suc.prems(5) fuel [of c] have "0 < n" "c \<in> set ?cs" by auto
    then have "c \<in> set (concat (map (postorder n st) ?cs))"
      using postorder_root [of n c st] by auto
    moreover have "postorder (Suc n) st r = concat (map (postorder n st) ?cs) @ r # []" by simp
    ultimately show ?thesis using True by blast
  next
    case False
    with Suc.prems(4) obtain d where d: "d \<in> set ?cs" "x \<in> set (postorder n st d)" by auto
    from fuel [OF d(1)] Suc.IH [OF Suc.prems(1) _ _ d(2) Suc.prems(5)]
    obtain ys zs where split: "postorder n st d = ys @ x # zs" "c \<in> set ys" by blast
    from d(1) obtain cs1 cs2 where "?cs = cs1 @ d # cs2" by (auto dest: split_list)
    then have "postorder (Suc n) st r =
        (concat (map (postorder n st) cs1) @ ys) @ x # (zs @ concat (map (postorder n st) cs2) @ [r])"
      using split(1) by simp
    with split(2) show ?thesis by (metis Un_iff set_append)
  qed
qed

lemma map_of_filter_keys:
  "map_of (filter (\<lambda>e. fst e \<notin> K) xs) k = (if k \<in> K then None else map_of xs k)"
  by (induction xs) auto

text \<open>
  Claim C2.  A \<^verbatim>\<open>frameDetached\<close> event with reason \<open>remove\<close> names a tracked frame; the
  children are allocated after their parents and point back to them (\<open>tree_ok\<close>), the
  index holds every frame under its id (\<open>index_ok\<close>), and the fuel is at least the number of
  frame objects.  Then the handler returns, and it has detached and deleted the frames of
  the post-order of the frame, one after the other: these are exactly the frames below
  the frame, each once, every child before its parent; a \<^verbatim>\<open>FrameDetached\<close> event is
  emitted for each in that order; each is marked detached, its id is no longer a key of
  the index and no key leads to it; the other entries of the index stay.  With reason
  \<open>swap\<close> the handler emits \<^verbatim>\<open>FrameSwapped\<close> and the index is unchanged.
\<close>

theorem frame_detached_removes_subtree_in_postorder:
  assumes ok: "tree_ok st" and idx: "index_ok st"
    and tracked: "map_of (fm_frames st) frameId = Some r" and fuel: "frame_next st \<le> n"
  shows "onFrameDetached n frameId Remove st = Some (detach_all (postorder n st r) st)
    \<and> set (postorder n st r) = subtree st r
    \<and> distinct (postorder n st r)
    \<and> (\<forall>x \<in> subtree st r. \<forall>c \<in> set (childFrames (frame_store st x)).
          \<exists>ys zs. postorder n st r = ys @ x # zs \<and> c \<in> set ys)
    \<and> emitted (detach_all (postorder n st r) st) = emitted st @ map FrameDetached (postorder n st r)
    \<and> (\<forall>x \<in> subtree st r.
          frame_detached (frame_store (detach_all (postorder n st r) st) x)
          \<and> frame (frame_id (frame_store st x)) (detach_all (postorder n st r) st) = None
          \<and> (\<forall>k. frame k (detach_all (postorder n st r) st) \<noteq> Some x))
    \<and> fm_frames (detach_all (postorder n st r) st) =
         filter (\<lambda>e. fst e \<notin> (\<lambda>x. frame_id (frame_store st x)) ` subtree st r) (fm_frames st)
    \<and> onFrameDetached m frameId' Swap st = Some (emit (FrameSwapped (frame frameId' st)) st)
    \<and> fm_frames (emit (FrameSwapped (frame frameId' st)) st) = fm_frames st"
proof -
  let ?po = "postorder n st r"
  let ?st' = "detach_all ?po st"
  from tracked have "(frameId, r) \<in> set (fm_frames st)" by (rule map_of_SomeD)
  with idx have r: "r < frame_next st" by (force simp: index_ok_def)
  with fuel have fl: "frame_next st - r \<le> n" by simp
  have 1: "onFrameDetached n frameId Remove st = Some ?st'"
    using tracked removeFramesRecursively_postorder [OF ok r fl] by (simp add: onFrameDetached_def)
  have 2: "set ?po = subtree st r"
    using postorder_subset postorder_full [OF ok r fl] by blast
  have 3: "distinct ?po" using ok by (rule postorder_distinct)
  have 4: "\<forall>x \<in> subtree st r. \<forall>c \<in> set (childFrames (frame_store st x)).
          \<exists>ys zs. ?po = ys @ x # zs \<and> c \<in> set ys"
    using postorder_children_first [OF ok r fl] 2 by blast
  have 5: "emitted ?st' = emitted st @ map FrameDetached ?po" by (simp add: detach_all_fields)
  have 7: "fm_frames ?st' = filter (\<lambda>e. fst e \<notin> (\<lambda>x. frame_id (frame_store st x)) ` subtree st r) (fm_frames st)"
    by (simp add: detach_all_index 2)
  have 6: "\<forall>x \<in> subtree st r. frame_detached (frame_store ?st' x)
          \<and> frame (frame_id (frame_store st x)) ?st' = None
          \<and> (\<forall>k. frame k ?st' \<noteq> Some x)"
  proof (intro ballI conjI allI)
    fix x assume x: "x \<in> subtree st r"
    then show "frame_detached (frame_store ?st' x)" by (simp add: detach_all_detached 2)
    from x show "frame (frame_id (frame_store st x)) ?st' = None"
      by (simp add: frame_def 7 map_of_filter_keys)
    fix k show "frame k ?st' \<noteq> Some x"
    proof
      assume "frame k ?st' = Some x"
      then have "map_of (fm_frames st) k = Some x" "k \<notin> (\<lambda>x. frame_id (frame_store st x)) ` subtree st r"
        by (simp_all add: frame_def 7 map_of_filter_keys split: if_splits)
      moreover from this(1) have "(k, x) \<in> set (fm_frames st)" by (rule map_of_SomeD)
      with idx have "frame_id (frame_store st x) = k" by (force simp: index_ok_def)
      ultimately show False using x by blast
    qed
  qed
  have 8: "onFrameDetached m frameId' Swap st = Some (emit (FrameSwapped (frame frameId' st)) st)"
    "fm_frames (emit (FrameSwapped (frame frameId' st)) st) = fm_frames st"
    by (simp_all add: onFrameDetached_def frame_def emit_def)
  from 1 2 3 4 5 6 7 8 show ?thesis by blast
qed

theorem frame_detached_removes_subtree_in_postorder_witness:
  "tree_ok example_page \<and> index_ok example_page
   \<and> map_of (fm_frames example_page) ''F1'' = Some 0 \<and> frame_next example_page \<le> 2
   \<and> onFrameDetached 2 ''F1'' Remove example_page = Some (detach_all [1, 0] example_page)
   \<and> subtree example_page 0 = {0, 1}
   \<and> emitted (detach_all [1, 0] example_page)
        = [FrameNavigated 0, FrameAttached 1, FrameDetached 1, FrameDetached 0]
   \<and> frame_detached (frame_store (detach_all [1, 0] example_page) 0)
   \<and> frame_detached (frame_store (detach_all [1, 0] example_page) 1)
   \<and> fm_frames (detach_all [1, 0] example_page) = []
   \<and> onFrameDetached 0 ''F2'' Swap example_page = Some (emit (FrameSwapped (Some 1)) example_page)
   \<and> map_of (fm_frames example_page) ''F2'' = Some 1
   \<and> onFrameDetached 2 ''F2'' Remove example_page = Some (detach_all [1] example_page)
   \<and> fm_frames (detach_all [1] example_page) = [(''F1'', 0)]
   \<and> frame ''F2'' (detach_all [1] example_page) = None
   \<and> childFrames (frame_store (detach_all [1] example_page) 0) = []"
proof -
  have h3: "map_of (fm_frames example_page) ''F1'' = Some 0" by (simp add: example_page_fields)
  have h3': "map_of (fm_frames example_page) ''F2'' = Some 1" by (simp add: example_page_fields)
  have h4: "frame_next example_page \<le> 2" by (simp add: example_page_fields)
  have ids: "(\<lambda>x. frame_id (frame_store example_page x)) ` {0, 1} = {''F1'', ''F2''}"
    "(\<lambda>x. frame_id (frame_store example_page x)) ` {1} = {''F2''}"
    by (simp_all add: example_page_fields)
  have f2: "frame ''F2'' example_page = Some 1" by (simp add: frame_def example_page_fields)
  note t = frame_detached_removes_subtree_in_postorder
    [OF example_page_tree_ok example_page_index_ok h3 h4, of 0 "''F2''", unfolded postorder_example_page]
  note u = frame_detached_removes_subtree_in_postorder
    [OF example_page_tree_ok example_page_index_ok h3' h4, of 0 "''F2''", unfolded postorder_example_child]
  from t have sub: "subtree example_page 0 = {0, 1}" by auto
  from u have sub': "subtree example_page 1 = {1}" by auto
  from t have "onFrameDetached 2 ''F1'' Remove example_page = Some (detach_all [1, 0] example_page)"
    by blast
  moreover from t have "emitted (detach_all [1, 0] example_page)
        = [FrameNavigated 0, FrameAttached 1, FrameDetached 1, FrameDetached 0]"
    by (simp add: example_page_fields)
  moreover from t sub have "frame_detached (frame_store (detach_all [1, 0] example_page) 0)"
    "frame_detached (frame_store (detach_all [1, 0] example_page) 1)"
    by simp_all
  moreover from t have "fm_frames (detach_all [1, 0] example_page) = []"
    unfolding sub ids by (simp add: example_page_fields)
  moreover from t have "onFrameDetached 0 ''F2'' Swap example_page = Some (emit (FrameSwapped (Some 1)) example_page)"
    unfolding f2 by blast
  moreover from u have "onFrameDetached 2 ''F2'' Remove example_page = Some (detach_all [1] example_page)"
    by blast
  moreover from u have idx: "fm_frames (detach_all [1] example_page) = [(''F1'', 0)]"
    unfolding sub' ids by (simp add: example_page_fields)
  moreover from idx have "frame ''F2'' (detach_all [1] example_page) = None"
    by (simp add: frame_def)
  moreover have "childFrames (frame_store (detach_all [1] example_page) 0) = []"
    by (subst detach_all_children [OF example_page_tree_ok]) (simp add: example_page_children)
  ultimately show ?thesis
    using example_page_tree_ok example_page_index_ok h3 h3' h4 sub by blast
qed

section \<open>The conditions on the state are kept\<close>

lemma tree_ok_frame_update:
  assumes "tree_ok st"
    and "\<And>x. childFrames (frame_store st' x) = childFrames (frame_store st x)"
    and "\<And>x. parentFrame (frame_store st' x) = parentFrame (frame_store st x)"
    and "frame_next st' = frame_next st"
  shows "tree_ok st'"
  using assms by (simp add: tree_ok_def)

lemma updateClient_frame:
  "childFrames (frame_store (updateClient r c st) x) = childFrames (frame_store st x)"
  "parentFrame (frame_store (updateClient r c st) x) = parentFrame (frame_store st x)"
  "frame_id (frame_store (updateClient r c st) x) = frame_id (frame_store st x)"
  "frame_next (updateClient r c st) = frame_next st"
  "fm_frames (updateClient r c st) = fm_frames st"
  "fm_mainFrame (updateClient r c st) = fm_mainFrame st"
  by (simp_all add: updateClient_def store_defs Let_def)

lemma tree_ok_updateClient: "tree_ok st \<Longrightarrow> tree_ok (updateClient r c st)"
  by (rule tree_ok_frame_update) (simp_all add: updateClient_frame)

lemma index_ok_updateClient: "index_ok st \<Longrightarrow> index_ok (updateClient r c st)"
  by (simp add: index_ok_def updateClient_frame)

lemma new_Frame_fields:
  "fst (new_Frame parent i c st) = frame_next st"
  "frame_next (snd (new_Frame parent i c st)) = Suc (frame_next st)"
  "fm_frames (snd (new_Frame parent i c st)) = fm_frames st"
  "frame_id (frame_store (snd (new_Frame parent i c st)) x) =
     (if x = frame_next st then i else frame_id (frame_store st x))"
  by (simp_all add: new_Frame_def updateClient_def store_defs Let_def split: option.splits)

lemma new_Frame_tree:
  assumes "parent \<noteq> Some (frame_next st)"
  shows "childFrames (frame_store (snd (new_Frame parent i c st)) x) =
     (if x = frame_next st then []
      else if parent = Some x \<and> frame_next st \<notin> set (childFrames (frame_store st x))
      then childFrames (frame_store st x) @ [frame_next st]
      else childFrames (frame_store st x))"
    and "parentFrame (frame_store (snd (new_Frame parent i c st)) x) =
     (if x = frame_next st then parent else parentFrame (frame_store st x))"
  using assms by (auto simp add: new_Frame_def updateClient_def store_defs Let_def split: option.splits)

lemma tree_ok_new_Frame:
  assumes ok: "tree_ok st" and p: "case parent of None \<Rightarrow> True | Some p \<Rightarrow> p < frame_next st"
  shows "tree_ok (snd (new_Frame parent i c st))"
proof -
  from p have np: "parent \<noteq> Some (frame_next st)" by (auto split: option.splits)
  have fresh: "frame_next st \<notin> set (childFrames (frame_store st x))" for x
    using ok by (auto simp: tree_ok_def)
  show ?thesis
    unfolding tree_ok_def
  proof (intro allI conjI)
    fix x
    show "distinct (childFrames (frame_store (snd (new_Frame parent i c st)) x))"
      using ok fresh by (simp add: new_Frame_tree [OF np] tree_ok_def)
    show "\<forall>d \<in> set (childFrames (frame_store (snd (new_Frame parent i c st)) x)).
        x < d \<and> d < frame_next (snd (new_Frame parent i c st))
        \<and> parentFrame (frame_store (snd (new_Frame parent i c st)) d) = Some x"
    proof
      fix d assume d: "d \<in> set (childFrames (frame_store (snd (new_Frame parent i c st)) x))"
      show "x < d \<and> d < frame_next (snd (new_Frame parent i c st))
          \<and> parentFrame (frame_store (snd (new_Frame parent i c st)) d) = Some x"
      proof (cases "d = frame_next st")
        case True
        with d fresh have px: "parent = Some x" "x \<noteq> frame_next st"
          by (auto simp add: new_Frame_tree [OF np] split: if_splits)
        have "parentFrame (frame_store (snd (new_Frame parent i c st)) (frame_next st)) = parent"
          by (simp add: new_Frame_tree [OF np])
        moreover from p px have "x < frame_next st" by simp
        ultimately show ?thesis using px True by (simp add: new_Frame_fields)
      next
        case False
        with d have "d \<in> set (childFrames (frame_store st x))"
          by (auto simp add: new_Frame_tree [OF np] split: if_splits)
        with ok have "x < d \<and> d < frame_next st \<and> parentFrame (frame_store st d) = Some x"
          by (simp add: tree_ok_def)
        with False show ?thesis by (simp add: new_Frame_tree [OF np] new_Frame_fields)
      qed
    qed
  qed
qed

lemma set_update_subset: "set (AList.update k v xs) \<subseteq> insert (k, v) (set xs)"
  by (induction xs) auto

lemma set_delete_subset: "set (AList.delete k xs) \<subseteq> set xs"
  by (auto simp: AList.delete_eq)

lemma index_ok_insert:
  assumes old: "index_ok st"
    and entries: "set (fm_frames st') \<subseteq> insert (k, r) {e \<in> set (fm_frames st). snd e \<noteq> r}"
    and r: "r < frame_next st'" "frame_id (frame_store st' r) = k"
    and mono: "frame_next st \<le> frame_next st'"
    and ids: "\<And>x. x \<noteq> r \<Longrightarrow> frame_id (frame_store st' x) = frame_id (frame_store st x)"
  shows "index_ok st'"
  unfolding index_ok_def
proof
  fix e assume "e \<in> set (fm_frames st')"
  with entries have "e = (k, r) \<or> (e \<in> set (fm_frames st) \<and> snd e \<noteq> r)" by blast
  then show "snd e < frame_next st' \<and> frame_id (frame_store st' (snd e)) = fst e"
  proof
    assume "e = (k, r)" with r show ?thesis by simp
  next
    assume e: "e \<in> set (fm_frames st) \<and> snd e \<noteq> r"
    with old have "snd e < frame_next st \<and> frame_id (frame_store st (snd e)) = fst e"
      by (simp add: index_ok_def)
    with e mono ids show ?thesis by auto
  qed
qed

lemma index_okD:
  "index_ok st \<Longrightarrow> map_of (fm_frames st) k = Some r \<Longrightarrow> r < frame_next st \<and> frame_id (frame_store st r) = k"
  by (force simp: index_ok_def dest: map_of_SomeD)

lemma state_ok_onFrameAttached:
  assumes ok: "state_ok st" and res: "onFrameAttached session frameId parentFrameId st = Inr st'"
  shows "state_ok st' \<and> frame_next st' \<le> Suc (frame_next st)"
proof (cases "map_of (fm_frames st) frameId")
  case (Some r)
  with res have "st' = (if isOOPFrame r st then updateClient r session st else st)"
    by (simp add: onFrameAttached_def)
  with ok show ?thesis
    by (simp add: state_ok_def tree_ok_updateClient index_ok_updateClient updateClient_frame)
next
  case None
  with res obtain parent where parent: "map_of (fm_frames st) (the parentFrameId) = Some parent"
    by (auto simp add: onFrameAttached_def split: if_splits option.splits)
  let ?new = "new_Frame (Some parent) frameId session st"
  from None parent res have st': "st' = emit (FrameAttached (frame_next st))
      ((snd ?new)\<lparr>fm_frames := AList.update frameId (frame_next st) (fm_frames (snd ?new))\<rparr>)"
    by (auto simp add: onFrameAttached_def new_Frame_fields case_prod_unfold Let_def split: if_splits)
  from ok have t: "tree_ok st" and i: "index_ok st" by (simp_all add: state_ok_def)
  from index_okD [OF i parent] have p: "parent < frame_next st" by simp
  have t': "tree_ok st'"
  proof (rule tree_ok_frame_update [OF tree_ok_new_Frame [OF t, of "Some parent" frameId session]])
    show "case Some parent of None \<Rightarrow> True | Some p \<Rightarrow> p < frame_next st" using p by simp
  qed (simp_all add: st' emit_def)
  have i': "index_ok st'"
  proof (rule index_ok_insert [OF i, of _ frameId "frame_next st"])
    have "set (fm_frames st') \<subseteq> insert (frameId, frame_next st) (set (fm_frames st))"
      using set_update_subset [of frameId "frame_next st" "fm_frames st"]
      by (simp add: st' emit_def new_Frame_fields)
    moreover have "snd e \<noteq> frame_next st" if "e \<in> set (fm_frames st)" for e
      using i that by (force simp: index_ok_def)
    ultimately show "set (fm_frames st') \<subseteq> insert (frameId, frame_next st) {e \<in> set (fm_frames st). snd e \<noteq> frame_next st}"
      by blast
  qed (simp_all add: st' emit_def new_Frame_fields)
  have "fm_mainFrame st' = fm_mainFrame st"
    by (simp add: st' emit_def new_Frame_def updateClient_def store_defs Let_def)
  moreover have "frame_next st' = Suc (frame_next st)" by (simp add: st' emit_def new_Frame_fields)
  ultimately show ?thesis using ok t' i' by (auto simp add: state_ok_def)
qed


lemma index_ok_detach_all: "index_ok st \<Longrightarrow> index_ok (detach_all xs st)"
  by (simp add: index_ok_def detach_all_index detach_all_fields)

lemma state_ok_detach_all: "state_ok st \<Longrightarrow> state_ok (detach_all xs st)"
  by (simp add: state_ok_def tree_ok_detach_all index_ok_detach_all detach_all_fields)

lemma navigated_fields:
  "childFrames (frame_store (navigated r p st) x) = childFrames (frame_store st x)"
  "parentFrame (frame_store (navigated r p st) x) = parentFrame (frame_store st x)"
  "frame_id (frame_store (navigated r p st) x) = frame_id (frame_store st x)"
  "frame_next (navigated r p st) = frame_next st"
  "fm_frames (navigated r p st) = fm_frames st"
  "fm_mainFrame (navigated r p st) = fm_mainFrame st"
  by (simp_all add: navigated_def store_defs)

lemma state_ok_navigated: "state_ok st \<Longrightarrow> state_ok (emit e (navigated r p st))"
  by (simp add: state_ok_def tree_ok_def index_ok_def navigated_fields emit_def)

lemma set_delete: "set (AList.delete k xs) = {e \<in> set xs. fst e \<noteq> k}"
  by (auto simp: AList.delete_eq)

lemma state_ok_onFrameNavigated:
  assumes ok: "state_ok st" and fuel: "frame_next st \<le> n"
  shows "\<exists>res. onFrameNavigated n p st = Some res
    \<and> (\<forall>st'. res = Inr st' \<longrightarrow> state_ok st'
          \<and> frame_next st' \<le> (if truthy (payload_parentId p) then frame_next st else Suc (frame_next st)))"
proof -
  from ok have t: "tree_ok st" and i: "index_ok st" by (simp_all add: state_ok_def)
  have loop: "for_each (\<lambda>child s. removeFramesRecursively n child s) (childFrames (frame_store st r)) st
      = Some (detach_all (concat (map (postorder n st) (childFrames (frame_store st r)))) st)" for r
    using t fuel by (rule remove_children_of)
  show ?thesis
  proof (cases "truthy (payload_parentId p)")
    case True
    show ?thesis
    proof (cases "map_of (fm_frames st) (payload_id p)")
      case None
      with True show ?thesis by (simp add: onFrameNavigated_def)
    next
      case (Some r)
      let ?st1 = "detach_all (concat (map (postorder n st) (childFrames (frame_store st r)))) st"
      have "onFrameNavigated n p st = Some (Inr (emit (FrameNavigated r) (navigated r p ?st1)))"
        using True Some by (simp add: onFrameNavigated_def loop)
      moreover have "state_ok (emit (FrameNavigated r) (navigated r p ?st1))"
        using ok by (intro state_ok_navigated state_ok_detach_all)
      moreover have "frame_next (emit (FrameNavigated r) (navigated r p ?st1)) = frame_next st"
        by (simp add: emit_def navigated_fields detach_all_fields)
      ultimately show ?thesis using True by simp
    qed
  next
    case False
    show ?thesis
    proof (cases "fm_mainFrame st")
      case None
      let ?new = "new_Frame None (payload_id p) (fm_client st) st"
      let ?s = "(snd ?new)\<lparr>fm_frames := AList.update (payload_id p) (frame_next st) (fm_frames (snd ?new)),
                    fm_mainFrame := Some (frame_next st)\<rparr>"
      have res: "onFrameNavigated n p st = Some (Inr (emit (FrameNavigated (frame_next st)) (navigated (frame_next st) p ?s)))"
        using False None by (simp add: onFrameNavigated_def new_Frame_fields case_prod_unfold Let_def)
      have ts: "tree_ok ?s"
        by (rule tree_ok_frame_update [OF tree_ok_new_Frame [OF t, of None "payload_id p" "fm_client st"]])
          simp_all
      have ix: "index_ok ?s"
      proof (rule index_ok_insert [OF i, of _ "payload_id p" "frame_next st"])
        have "set (fm_frames ?s) \<subseteq> insert (payload_id p, frame_next st) (set (fm_frames st))"
          using set_update_subset [of "payload_id p" "frame_next st" "fm_frames st"]
          by (simp add: new_Frame_fields)
        moreover have "snd e \<noteq> frame_next st" if "e \<in> set (fm_frames st)" for e
          using i that by (force simp: index_ok_def)
        ultimately show "set (fm_frames ?s) \<subseteq> insert (payload_id p, frame_next st) {e \<in> set (fm_frames st). snd e \<noteq> frame_next st}"
          by blast
      qed (simp_all add: new_Frame_fields)
      have "state_ok ?s" using ts ix by (simp add: state_ok_def new_Frame_fields)
      then have "state_ok (emit (FrameNavigated (frame_next st)) (navigated (frame_next st) p ?s))"
        by (rule state_ok_navigated)
      moreover have "frame_next (emit (FrameNavigated (frame_next st)) (navigated (frame_next st) p ?s)) = Suc (frame_next st)"
        by (simp add: emit_def navigated_fields new_Frame_fields)
      ultimately show ?thesis using res False by simp
    next
      case (Some r)
      let ?st1 = "detach_all (concat (map (postorder n st) (childFrames (frame_store st r)))) st"
      let ?old = "frame_id (frame_store st r)"
      let ?s = "update_frame r (\<lambda>f. f\<lparr>frame_id := payload_id p\<rparr>)
                  (?st1\<lparr>fm_frames := AList.delete ?old (fm_frames ?st1)\<rparr>)"
      let ?s' = "?s\<lparr>fm_frames := AList.update (payload_id p) r (fm_frames ?s), fm_mainFrame := Some r\<rparr>"
      have res: "onFrameNavigated n p st = Some (Inr (emit (FrameNavigated r) (navigated r p ?s')))"
        using False Some by (simp add: onFrameNavigated_def loop Let_def detach_all_fields)
      from ok have ok1: "state_ok ?st1" by (rule state_ok_detach_all)
      then have t1: "tree_ok ?st1" and i1: "index_ok ?st1" by (simp_all add: state_ok_def)
      from ok Some have r: "r < frame_next st" by (simp add: state_ok_def)
      have ts: "tree_ok ?s'"
        by (rule tree_ok_frame_update [OF t1]) (simp_all add: store_defs)
      have ix: "index_ok ?s'"
      proof (rule index_ok_insert [OF i1, of _ "payload_id p" r])
        have "set (fm_frames ?s') \<subseteq> insert (payload_id p, r) (set (AList.delete ?old (fm_frames ?st1)))"
          using set_update_subset [of "payload_id p" r "AList.delete ?old (fm_frames ?st1)"]
          by (simp add: store_defs)
        moreover have "snd e \<noteq> r" if "e \<in> set (AList.delete ?old (fm_frames ?st1))" for e
        proof
          assume "snd e = r"
          moreover from that have e: "e \<in> set (fm_frames ?st1)" "fst e \<noteq> ?old" by (simp_all add: set_delete)
          moreover from i1 e(1) have "frame_id (frame_store ?st1 (snd e)) = fst e" by (simp add: index_ok_def)
          ultimately show False by (simp add: detach_all_fields)
        qed
        ultimately show "set (fm_frames ?s') \<subseteq> insert (payload_id p, r) {e \<in> set (fm_frames ?st1). snd e \<noteq> r}"
          using set_delete_subset [of ?old "fm_frames ?st1"] by blast
      qed (simp_all add: store_defs detach_all_fields r)
      have "state_ok ?s'" using ts ix r by (simp add: state_ok_def store_defs detach_all_fields)
      then have "state_ok (emit (FrameNavigated r) (navigated r p ?s'))"
        by (rule state_ok_navigated)
      moreover have "frame_next (emit (FrameNavigated r) (navigated r p ?s')) = frame_next st"
        by (simp add: emit_def navigated_fields store_defs detach_all_fields)
      ultimately show ?thesis using res False by simp
    qed
  qed
qed


lemma onFrameNavigated_throws:
  assumes "onFrameNavigated n p st = Some (Inl e)"
  shows "e = JSError ''We either navigate top level or have old version of the navigated frame''
    \<and> truthy (payload_parentId p) \<and> map_of (fm_frames st) (payload_id p) = None"
  using assms
  by (auto simp add: onFrameNavigated_def Let_def case_prod_unfold
      split: if_splits option.splits)

lemma state_ok_new_FrameManager: "state_ok (new_FrameManager c)"
  by (simp add: state_ok_def tree_ok_def index_ok_def new_FrameManager_def)

lemma state_ok_onFrameDetached:
  assumes ok: "state_ok st" and fuel: "frame_next st \<le> n"
  shows "\<exists>st'. onFrameDetached n frameId reason st = Some st' \<and> state_ok st' \<and> frame_next st' = frame_next st"
proof (cases reason)
  case Remove
  show ?thesis
  proof (cases "map_of (fm_frames st) frameId")
    case None
    with Remove ok show ?thesis by (simp add: onFrameDetached_def)
  next
    case (Some r)
    from ok have t: "tree_ok st" and i: "index_ok st" by (simp_all add: state_ok_def)
    from index_okD [OF i Some] fuel have "r < frame_next st" "frame_next st - r \<le> n" by simp_all
    with t have "removeFramesRecursively n r st = Some (detach_all (postorder n st r) st)"
      by (intro removeFramesRecursively_postorder)
    with Remove Some ok show ?thesis
      by (simp add: onFrameDetached_def state_ok_detach_all detach_all_fields)
  qed
next
  case Swap
  with ok show ?thesis
    by (simp add: onFrameDetached_def emit_def state_ok_def tree_ok_def index_ok_def)
qed

lemma handleFrameTree_returns:
  "state_ok st \<Longrightarrow> frame_next st + tree_nodes tree \<le> n \<Longrightarrow>
     \<exists>e st'. handleFrameTree n session tree st = Some (e, st') \<and> state_ok st'
        \<and> frame_next st' \<le> frame_next st + tree_nodes tree"
  and handleFrameTrees_returns:
  "state_ok st \<Longrightarrow> frame_next st + sum_list (map tree_nodes trees) \<le> n \<Longrightarrow>
     \<exists>e st'. handleFrameTrees n session trees st = Some (e, st') \<and> state_ok st'
        \<and> frame_next st' \<le> frame_next st + sum_list (map tree_nodes trees)"
proof (induction n session tree st and n session trees st rule: handleFrameTree_handleFrameTrees.induct)
  case (1 n session payload children st)
  let ?attached = "if truthy (payload_parentId payload)
            then onFrameAttached session (payload_id payload) (payload_parentId payload) st
            else Inr st"
  show ?case
  proof (cases ?attached)
    case (Inl e)
    with "1.prems" show ?thesis by auto
  next
    case (Inr st1)
    then have ok1: "state_ok st1"
      and n1: "frame_next st1 \<le> (if truthy (payload_parentId payload) then Suc (frame_next st) else frame_next st)"
      using "1.prems"(1) state_ok_onFrameAttached [of st session "payload_id payload" "payload_parentId payload" st1]
      by (auto split: if_splits)
    with "1.prems"(2) have fuel1: "frame_next st1 \<le> n" by (simp split: if_splits)
    from state_ok_onFrameNavigated [OF ok1 fuel1, of payload]
    obtain res where res: "onFrameNavigated n payload st1 = Some res"
      and post: "\<And>st2. res = Inr st2 \<Longrightarrow> state_ok st2
          \<and> frame_next st2 \<le> (if truthy (payload_parentId payload) then frame_next st1 else Suc (frame_next st1))"
      by blast
    show ?thesis
    proof (cases res)
      case (Inl e)
      with Inr res ok1 n1 show ?thesis by (auto split: if_splits)
    next
      case (Inr st2)
      from post [OF Inr] n1 have ok2: "state_ok st2" and n2: "frame_next st2 \<le> Suc (frame_next st)"
        by (auto split: if_splits)
      with "1.prems"(2) have fuel2: "frame_next st2 + sum_list (map tree_nodes children) \<le> n" by simp
      from "1.IH" [OF \<open>?attached = Inr st1\<close> res Inr ok2 fuel2]
      obtain e st' where "handleFrameTrees n session children st2 = Some (e, st')" "state_ok st'"
        "frame_next st' \<le> frame_next st2 + sum_list (map tree_nodes children)"
        by blast
      with \<open>?attached = Inr st1\<close> res Inr n2 show ?thesis by auto
    qed
  qed
next
  case (2 n session st)
  then show ?case by simp
next
  case (3 n session t ts st)
  from "3.prems" have "frame_next st + tree_nodes t \<le> n" by simp
  from "3.IH"(1) [OF "3.prems"(1) this]
  obtain e st1 where t: "handleFrameTree n session t st = Some (e, st1)" "state_ok st1"
    "frame_next st1 \<le> frame_next st + tree_nodes t"
    by blast
  show ?case
  proof (cases e)
    case (Some a)
    with t show ?thesis by auto
  next
    case None
    from t(3) "3.prems"(2) have "frame_next st1 + sum_list (map tree_nodes ts) \<le> n" by simp
    from "3.IH"(2) [OF t(1) [unfolded None] refl refl t(2) this]
    obtain e' st' where "handleFrameTrees n session ts st1 = Some (e', st')" "state_ok st'"
      "frame_next st' \<le> frame_next st1 + sum_list (map tree_nodes ts)"
      by blast
    with t None show ?thesis by auto
  qed
qed

lemma destroyed_frames:
  "fm_frames (onExecutionContextDestroyed i s st) = fm_frames st"
  "frame_store (onExecutionContextDestroyed i s st) = frame_store st"
  "frame_next (onExecutionContextDestroyed i s st) = frame_next st"
  "fm_mainFrame (onExecutionContextDestroyed i s st) = fm_mainFrame st"
  by (simp_all add: onExecutionContextDestroyed_def store_defs Let_def split: option.splits)

lemma clear_contexts_frame_next: "frame_next (clear_contexts s es st) = frame_next st"
  by (induction s es st rule: clear_contexts.induct)
     (simp_all add: store_defs Let_def split: option.splits)

lemma state_ok_created:
  assumes "onExecutionContextCreated p s st = Inr st'"
  shows "state_ok st' = state_ok st"
  using created_frames [OF assms] by (simp add: state_ok_def tree_ok_def index_ok_def)

lemma state_ok_contexts:
  "state_ok (onExecutionContextDestroyed i s st) = state_ok st"
  "state_ok (onExecutionContextsCleared s st) = state_ok st"
  by (simp_all add: state_ok_def tree_ok_def index_ok_def
      destroyed_frames onExecutionContextsCleared_def clear_contexts_frame clear_contexts_frame_next)

section \<open>Attaching and navigating frames\<close>

text \<open>
  Claim C1.  A \<^verbatim>\<open>frameNavigated\<close> event without a parent id arrives while a main frame
  is recorded (the fuel is at least the number of frame objects, for the removal of the
  children).  The handler returns; \<^verbatim>\<open>mainFrame()\<close> gives the same object before and after;
  no frame object is allocated; the object's id is the payload's id; the index holds the
  object under the new id, which is its current id, and no longer under the old id when
  the two differ.
\<close>

theorem main_frame_navigation_keeps_identity:
  assumes ok: "tree_ok st" and main: "fm_mainFrame st = Some r"
    and top: "\<not> truthy (payload_parentId p)" and fuel: "frame_next st \<le> n"
  shows "\<exists>st'. onFrameNavigated n p st = Some (Inr st')
    \<and> mainFrame st = Inr r \<and> mainFrame st' = Inr r
    \<and> frame_next st' = frame_next st
    \<and> frame_id (frame_store st' r) = payload_id p
    \<and> frame (payload_id p) st' = Some r
    \<and> frame (frame_id (frame_store st' r)) st' = Some r
    \<and> (frame_id (frame_store st r) \<noteq> payload_id p \<longrightarrow> frame (frame_id (frame_store st r)) st' = None)"
proof -
  let ?st1 = "detach_all (concat (map (postorder n st) (childFrames (frame_store st r)))) st"
  have loop: "for_each (\<lambda>child s. removeFramesRecursively n child s) (childFrames (frame_store st r)) st
      = Some ?st1"
    using ok fuel by (rule remove_children_of)
  have id1: "frame_id (frame_store ?st1 r) = frame_id (frame_store st r)"
    by (simp add: detach_all_fields)
  show ?thesis
    using main top
    by (simp add: onFrameNavigated_def loop Let_def id1 mainFrame_def frame_def navigated_def
        store_defs detach_all_fields lookup_update map_of_delete_same AList.delete_conv)
qed

theorem main_frame_navigation_keeps_identity_witness:
  "tree_ok example_page \<and> fm_mainFrame example_page = Some 0
   \<and> \<not> truthy (payload_parentId example_navigation) \<and> frame_next example_page \<le> 2
   \<and> frame ''F1'' example_page = Some 0
   \<and> (\<exists>st'. onFrameNavigated 2 example_navigation example_page = Some (Inr st')
        \<and> mainFrame example_page = Inr 0 \<and> mainFrame st' = Inr 0
        \<and> frame_id (frame_store st' 0) = ''F9''
        \<and> frame ''F9'' st' = Some 0
        \<and> frame ''F1'' st' = None)"
proof -
  have h2: "fm_mainFrame example_page = Some 0" by (simp add: example_page_fields)
  have h3: "\<not> truthy (payload_parentId example_navigation)"
    by (simp add: example_navigation_def truthy_def)
  have h4: "frame_next example_page \<le> 2" by (simp add: example_page_fields)
  have h5: "frame ''F1'' example_page = Some 0" by (simp add: frame_def example_page_fields)
  have ids: "frame_id (frame_store example_page 0) = ''F1''" "payload_id example_navigation = ''F9''"
    by (simp_all add: example_page_fields example_navigation_def)
  from main_frame_navigation_keeps_identity [OF example_page_tree_ok h2 h3 h4]
  have "\<exists>st'. onFrameNavigated 2 example_navigation example_page = Some (Inr st')
        \<and> mainFrame example_page = Inr 0 \<and> mainFrame st' = Inr 0
        \<and> frame_id (frame_store st' 0) = ''F9''
        \<and> frame ''F9'' st' = Some 0
        \<and> frame ''F1'' st' = None"
    by (simp add: ids) blast
  with example_page_tree_ok h2 h3 h4 h5 show ?thesis by blast
qed

text \<open>
  Claim C3, as the code has it.  A \<^verbatim>\<open>frameAttached\<close> event for a tracked frame returns
  the state unchanged when the frame is not out-of-process; when it is, whether the event
  comes from the session of the frame or from another one, the handler calls
  \<^verbatim>\<open>_updateClient\<close>, which changes, of the whole state, the client and the two Worlds of
  that frame only (two new World objects): the index, the emitted events, the number of
  frame objects and every parent, id and set of children are as before.  For an untracked
  frame id whose parent id names a tracked frame, a new frame object is constructed with
  that parent, added to the parent's children, indexed under the frame id, and
  \<^verbatim>\<open>FrameAttached\<close> is emitted for it; without such a parent the assertion throws.
\<close>

theorem frame_attached_again_keeps_the_tree:
  "(frame frameId st = Some r \<and> \<not> isOOPFrame r st \<longrightarrow>
      onFrameAttached session frameId parentFrameId st = Inr st)
   \<and> (frame frameId st = Some r \<and> isOOPFrame r st \<longrightarrow>
      onFrameAttached session frameId parentFrameId st = Inr (updateClient r session st)
      \<and> fm_frames (updateClient r session st) = fm_frames st
      \<and> fm_mainFrame (updateClient r session st) = fm_mainFrame st
      \<and> fm_contextIdToContext (updateClient r session st) = fm_contextIdToContext st
      \<and> context_store (updateClient r session st) = context_store st
      \<and> emitted (updateClient r session st) = emitted st
      \<and> frame_next (updateClient r session st) = frame_next st
      \<and> frame_store (updateClient r session st) =
          (frame_store st)(r := (frame_store st r)\<lparr>frame_client := session,
             mainWorld := world_next st, secondaryWorld := Suc (world_next st)\<rparr>)
      \<and> world_next (updateClient r session st) = Suc (Suc (world_next st))
      \<and> world_store (updateClient r session st) =
          (world_store st)
            (world_next st := \<lparr>world_frame = r, world_context = None, world_detached = False\<rparr>,
             Suc (world_next st) := \<lparr>world_frame = r, world_context = None, world_detached = False\<rparr>))
   \<and> (index_ok st \<and> frame frameId st = None \<and> truthy parentFrameId
        \<and> frame (the parentFrameId) st = Some parent \<longrightarrow>
      (\<exists>st'. onFrameAttached session frameId parentFrameId st = Inr st'
         \<and> frame_next st' = Suc (frame_next st)
         \<and> frame frameId st' = Some (frame_next st)
         \<and> emitted st' = emitted st @ [FrameAttached (frame_next st)]
         \<and> parentFrame (frame_store st' (frame_next st)) = Some parent
         \<and> frame_id (frame_store st' (frame_next st)) = frameId
         \<and> frame_client (frame_store st' (frame_next st)) = session
         \<and> \<not> frame_detached (frame_store st' (frame_next st))
         \<and> set (childFrames (frame_store st' parent)) =
             insert (frame_next st) (set (childFrames (frame_store st parent)))))
   \<and> (frame frameId st = None \<and> (\<not> truthy parentFrameId \<or> frame (the parentFrameId) st = None) \<longrightarrow>
      onFrameAttached session frameId parentFrameId st = Inl (JSError []))"
proof (intro conjI impI)
  assume "frame frameId st = Some r \<and> \<not> isOOPFrame r st"
  then show "onFrameAttached session frameId parentFrameId st = Inr st"
    by (simp add: onFrameAttached_def frame_def)
next
  assume a: "frame frameId st = Some r \<and> isOOPFrame r st"
  then show "onFrameAttached session frameId parentFrameId st = Inr (updateClient r session st)"
    by (simp add: onFrameAttached_def frame_def)
  show "fm_frames (updateClient r session st) = fm_frames st"
    "fm_mainFrame (updateClient r session st) = fm_mainFrame st"
    "fm_contextIdToContext (updateClient r session st) = fm_contextIdToContext st"
    "context_store (updateClient r session st) = context_store st"
    "emitted (updateClient r session st) = emitted st"
    "frame_next (updateClient r session st) = frame_next st"
    "world_next (updateClient r session st) = Suc (Suc (world_next st))"
    by (simp_all add: updateClient_def store_defs Let_def)
  show "frame_store (updateClient r session st) =
          (frame_store st)(r := (frame_store st r)\<lparr>frame_client := session,
             mainWorld := world_next st, secondaryWorld := Suc (world_next st)\<rparr>)"
    by (simp add: updateClient_def store_defs Let_def)
  show "world_store (updateClient r session st) =
          (world_store st)
            (world_next st := \<lparr>world_frame = r, world_context = None, world_detached = False\<rparr>,
             Suc (world_next st) := \<lparr>world_frame = r, world_context = None, world_detached = False\<rparr>)"
    by (simp add: updateClient_def store_defs Let_def)
next
  assume a: "index_ok st \<and> frame frameId st = None \<and> truthy parentFrameId
    \<and> frame (the parentFrameId) st = Some parent"
  then have "(the parentFrameId, parent) \<in> set (fm_frames st)"
    by (simp add: frame_def map_of_SomeD)
  with a have "parent < frame_next st" by (force simp: index_ok_def)
  with a have "frame frameId st = None \<and> truthy parentFrameId
    \<and> frame (the parentFrameId) st = Some parent \<and> parent \<noteq> frame_next st" by simp
  then show "\<exists>st'. onFrameAttached session frameId parentFrameId st = Inr st'
         \<and> frame_next st' = Suc (frame_next st)
         \<and> frame frameId st' = Some (frame_next st)
         \<and> emitted st' = emitted st @ [FrameAttached (frame_next st)]
         \<and> parentFrame (frame_store st' (frame_next st)) = Some parent
         \<and> frame_id (frame_store st' (frame_next st)) = frameId
         \<and> frame_client (frame_store st' (frame_next st)) = session
         \<and> \<not> frame_detached (frame_store st' (frame_next st))
         \<and> set (childFrames (frame_store st' parent)) =
             insert (frame_next st) (set (childFrames (frame_store st parent)))"
    by (auto simp add: onFrameAttached_def frame_def new_Frame_def updateClient_def store_defs Let_def
        lookup_update)
next
  assume "frame frameId st = None \<and> (\<not> truthy parentFrameId \<or> frame (the parentFrameId) st = None)"
  then show "onFrameAttached session frameId parentFrameId st = Inl (JSError [])"
    by (auto simp add: onFrameAttached_def frame_def)
qed


theorem frame_attached_again_keeps_the_tree_witness:
  "frame ''F2'' example_page = Some 1 \<and> \<not> isOOPFrame 1 example_page
   \<and> onFrameAttached (CDPSession ''main'') ''F2'' (Some ''F1'') example_page = Inr example_page
   \<and> frame ''F2'' example_oop_page = Some 1 \<and> isOOPFrame 1 example_oop_page
   \<and> onFrameAttached (CDPSession ''main'') ''F2'' (Some ''F1'') example_oop_page
        = Inr (updateClient 1 (CDPSession ''main'') example_oop_page)
   \<and> fm_frames (updateClient 1 (CDPSession ''main'') example_oop_page) = fm_frames example_oop_page
   \<and> emitted (updateClient 1 (CDPSession ''main'') example_oop_page) = emitted example_oop_page
   \<and> frame_client (frame_store (updateClient 1 (CDPSession ''main'') example_oop_page) 1) = CDPSession ''main''
   \<and> frame ''F2'' example_contexts = Some 1 \<and> isOOPFrame 1 example_contexts
   \<and> frame_client (frame_store example_contexts 1) = CDPSession ''oop''
   \<and> onFrameAttached (CDPSession ''oop'') ''F2'' (Some ''F1'') example_contexts
        = Inr (updateClient 1 (CDPSession ''oop'') example_contexts)
   \<and> fm_contextIdToContext (updateClient 1 (CDPSession ''oop'') example_contexts)
        = fm_contextIdToContext example_contexts
   \<and> frame_client (frame_store (updateClient 1 (CDPSession ''oop'') example_contexts) 1) = CDPSession ''oop''
   \<and> mainWorld (frame_store (updateClient 1 (CDPSession ''oop'') example_contexts) 1) = 6
   \<and> secondaryWorld (frame_store (updateClient 1 (CDPSession ''oop'') example_contexts) 1) = 7
   \<and> index_ok example_page \<and> frame ''F3'' example_page = None \<and> truthy (Some ''F1'')
   \<and> frame (the (Some ''F1'')) example_page = Some 0
   \<and> (\<exists>st'. onFrameAttached (CDPSession ''main'') ''F3'' (Some ''F1'') example_page = Inr st'
         \<and> frame ''F3'' st' = Some 2
         \<and> emitted st' = emitted example_page @ [FrameAttached 2]
         \<and> parentFrame (frame_store st' 2) = Some 0
         \<and> set (childFrames (frame_store st' 0)) = {1, 2})
   \<and> frame ''F7'' example_page = None
   \<and> onFrameAttached (CDPSession ''main'') ''F3'' (Some ''F7'') example_page = Inl (JSError [])"
proof -
  have a: "frame ''F2'' example_page = Some 1 \<and> \<not> isOOPFrame 1 example_page"
    by (simp add: frame_def isOOPFrame_def example_page_fields)
  have b: "frame ''F2'' example_oop_page = Some 1 \<and> isOOPFrame 1 example_oop_page"
    by (simp add: frame_def isOOPFrame_def example_oop_page_fields)
  have c: "index_ok example_page \<and> frame ''F3'' example_page = None \<and> truthy (Some ''F1'')
      \<and> frame (the (Some ''F1'')) example_page = Some 0"
    by (simp add: example_page_index_ok frame_def truthy_def example_page_fields)
  have d: "frame ''F3'' example_page = None \<and> (\<not> truthy (Some ''F7'') \<or> frame (the (Some ''F7'')) example_page = None)"
    by (simp add: frame_def example_page_fields)
  have d': "frame ''F7'' example_page = None" by (simp add: frame_def example_page_fields)
  note ta = frame_attached_again_keeps_the_tree
    [where frameId = "''F2''" and st = example_page and r = 1 and session = "CDPSession ''main''"
      and parentFrameId = "Some ''F1''", THEN conjunct1, rule_format, OF a]
  note tb = frame_attached_again_keeps_the_tree
    [where frameId = "''F2''" and st = example_oop_page and r = 1 and session = "CDPSession ''main''"
      and parentFrameId = "Some ''F1''", THEN conjunct2, THEN conjunct1, rule_format, OF b]
  have b': "frame ''F2'' example_contexts = Some 1 \<and> isOOPFrame 1 example_contexts"
    by (simp add: frame_def isOOPFrame_def example_contexts_fields example_oop_page_fields)
  have b'': "frame_client (frame_store example_contexts 1) = CDPSession ''oop''"
    by (simp add: example_contexts_fields example_oop_page_fields)
  note te = frame_attached_again_keeps_the_tree
    [where frameId = "''F2''" and st = example_contexts and r = 1 and session = "CDPSession ''oop''"
      and parentFrameId = "Some ''F1''", THEN conjunct2, THEN conjunct1, rule_format, OF b']
  from te have te': "onFrameAttached (CDPSession ''oop'') ''F2'' (Some ''F1'') example_contexts
        = Inr (updateClient 1 (CDPSession ''oop'') example_contexts)"
    "fm_contextIdToContext (updateClient 1 (CDPSession ''oop'') example_contexts)
        = fm_contextIdToContext example_contexts"
    "frame_client (frame_store (updateClient 1 (CDPSession ''oop'') example_contexts) 1) = CDPSession ''oop''"
    "mainWorld (frame_store (updateClient 1 (CDPSession ''oop'') example_contexts) 1) = 6"
    "secondaryWorld (frame_store (updateClient 1 (CDPSession ''oop'') example_contexts) 1) = 7"
    by (simp_all add: example_contexts_fields)
  note tc = frame_attached_again_keeps_the_tree
    [where frameId = "''F3''" and st = example_page and session = "CDPSession ''main''"
      and parentFrameId = "Some ''F1''" and parent = 0,
      THEN conjunct2, THEN conjunct2, THEN conjunct1, rule_format, OF c]
  note td = frame_attached_again_keeps_the_tree
    [where frameId = "''F3''" and st = example_page and session = "CDPSession ''main''"
      and parentFrameId = "Some ''F7''",
      THEN conjunct2, THEN conjunct2, THEN conjunct2, rule_format, OF d]
  from tb have tb': "onFrameAttached (CDPSession ''main'') ''F2'' (Some ''F1'') example_oop_page
        = Inr (updateClient 1 (CDPSession ''main'') example_oop_page)"
    "fm_frames (updateClient 1 (CDPSession ''main'') example_oop_page) = fm_frames example_oop_page"
    "emitted (updateClient 1 (CDPSession ''main'') example_oop_page) = emitted example_oop_page"
    "frame_client (frame_store (updateClient 1 (CDPSession ''main'') example_oop_page) 1) = CDPSession ''main''"
    by simp_all
  from tc have tc': "\<exists>st'. onFrameAttached (CDPSession ''main'') ''F3'' (Some ''F1'') example_page = Inr st'
         \<and> frame ''F3'' st' = Some 2
         \<and> emitted st' = emitted example_page @ [FrameAttached 2]
         \<and> parentFrame (frame_store st' 2) = Some 0
         \<and> set (childFrames (frame_store st' 0)) = {1, 2}"
    by (auto simp add: example_page_fields)
  from a b b' b'' c d' ta tb' te' tc' td show ?thesis by blast
qed

text \<open>
  Claim C3 as stated fails for an out-of-process frame whose session delivers the event
  again: on \<open>example_contexts\<close> the session \<open>oop\<close> of the frame \<open>F2\<close> reports the
  frame as attached.  The session does not differ, and yet the handler calls
  \<^verbatim>\<open>_updateClient\<close>: the frame has two new Worlds, and its new main World holds no
  context where the old one held the default context of the frame.
\<close>

theorem attached_again_by_own_session_replaces_the_worlds:
  "frame ''F2'' example_contexts = Some 1
   \<and> frame_client (frame_store example_contexts 1) = CDPSession ''oop''
   \<and> mainWorld (frame_store example_contexts 1) = 4
   \<and> world_context (world_store example_contexts 4) = Some 1
   \<and> onFrameAttached (CDPSession ''oop'') ''F2'' (Some ''F1'') example_contexts
        = Inr (updateClient 1 (CDPSession ''oop'') example_contexts)
   \<and> mainWorld (frame_store (updateClient 1 (CDPSession ''oop'') example_contexts) 1) = 6
   \<and> world_context (world_store (updateClient 1 (CDPSession ''oop'') example_contexts) 6) = None
   \<and> updateClient 1 (CDPSession ''oop'') example_contexts \<noteq> example_contexts"
proof -
  have 1: "frame ''F2'' example_contexts = Some 1"
    "frame_client (frame_store example_contexts 1) = CDPSession ''oop''"
    "mainWorld (frame_store example_contexts 1) = 4"
    "world_context (world_store example_contexts 4) = Some 1"
    by (simp_all add: frame_def example_contexts_fields example_oop_page_fields)
  have 2: "onFrameAttached (CDPSession ''oop'') ''F2'' (Some ''F1'') example_contexts
        = Inr (updateClient 1 (CDPSession ''oop'') example_contexts)"
    by (simp add: onFrameAttached_def isOOPFrame_def example_contexts_fields example_oop_page_fields)
  have 3: "mainWorld (frame_store (updateClient 1 (CDPSession ''oop'') example_contexts) 1) = 6"
    "world_context (world_store (updateClient 1 (CDPSession ''oop'') example_contexts) 6) = None"
    by (simp_all add: updateClient_def store_defs Let_def example_contexts_fields)
  have "mainWorld (frame_store (updateClient 1 (CDPSession ''oop'') example_contexts) 1)
      \<noteq> mainWorld (frame_store example_contexts 1)"
    using 1(3) 3(1) by simp
  then have 4: "updateClient 1 (CDPSession ''oop'') example_contexts \<noteq> example_contexts"
    by auto
  from 1 2 3 4 show ?thesis by blast
qed

section \<open>Initialization\<close>

lemma catch_closed_None:
  "catch_closed e = None \<longleftrightarrow>
     (\<exists>m a b. e = JSError m \<and> (m = a @ ''Target closed'' @ b \<or> m = a @ ''Session closed'' @ b))"
  by (cases e) (auto simp add: catch_closed_def isErrorLike_def string_includes_def sublist_def)

lemma catch_closed_Some: "catch_closed e \<noteq> None \<Longrightarrow> catch_closed e = Some e"
  by (simp add: catch_closed_def split: if_splits)

text \<open>
  Claim C6.  The \<^verbatim>\<open>catch\<close> block swallows a failure exactly when it is an error-like
  value whose message contains \<open>Target closed\<close> or \<open>Session closed\<close>, and otherwise
  throws the same value again.  \<^verbatim>\<open>initialize\<close> hands to it the failure that rejects the
  first batch of commands; and, on a state that meets the conditions and with fuel for the frames of
  the reported tree, \<^verbatim>\<open>#handleFrameTree\<close> returns, and \<^verbatim>\<open>initialize\<close> hands to the block
  the failure of the second batch or the error that \<^verbatim>\<open>#handleFrameTree\<close> throws; with no
  failure it returns.
\<close>

theorem initialize_swallows_closed_errors:
  "(catch_closed e = None \<longleftrightarrow>
      (\<exists>m a b. e = JSError m \<and> (m = a @ ''Target closed'' @ b \<or> m = a @ ''Session closed'' @ b)))
   \<and> (catch_closed e \<noteq> None \<longrightarrow> catch_closed e = Some e)
   \<and> initialize n client (Inl e) started st = Some (catch_closed e, st)
   \<and> (state_ok st \<and> frame_next st + tree_nodes tree \<le> n \<longrightarrow>
        (\<exists>thrown st1. handleFrameTree n client tree st = Some (thrown, st1)
           \<and> (thrown = None \<longrightarrow>
                 initialize n client (Inr tree) (Inl e) st = Some (catch_closed e, st1)
                 \<and> initialize n client (Inr tree) (Inr ()) st = Some (None, st1))
           \<and> (\<forall>e'. thrown = Some e' \<longrightarrow>
                 initialize n client (Inr tree) started st = Some (catch_closed e', st1))))"
proof (intro conjI impI)
  show "catch_closed e = None \<longleftrightarrow>
      (\<exists>m a b. e = JSError m \<and> (m = a @ ''Target closed'' @ b \<or> m = a @ ''Session closed'' @ b))"
    by (rule catch_closed_None)
  show "catch_closed e = Some e" if "catch_closed e \<noteq> None"
    using that by (rule catch_closed_Some)
  show "initialize n client (Inl e) started st = Some (catch_closed e, st)"
    by (simp add: initialize_def)
  assume "state_ok st \<and> frame_next st + tree_nodes tree \<le> n"
  then obtain thrown st1 where "handleFrameTree n client tree st = Some (thrown, st1)"
    using handleFrameTree_returns [of st tree n client] by blast
  then show "\<exists>thrown st1. handleFrameTree n client tree st = Some (thrown, st1)
           \<and> (thrown = None \<longrightarrow>
                 initialize n client (Inr tree) (Inl e) st = Some (catch_closed e, st1)
                 \<and> initialize n client (Inr tree) (Inr ()) st = Some (None, st1))
           \<and> (\<forall>e'. thrown = Some e' \<longrightarrow>
                 initialize n client (Inr tree) started st = Some (catch_closed e', st1))"
    by (auto simp add: initialize_def)
qed

lemma catch_closed_swallows_example: "catch_closed (JSError ''Protocol error (Page.enable): Target closed.'') = None"
  by code_simp

lemma catch_closed_rethrows_example: "catch_closed (JSError ''Protocol error (Page.enable): Not allowed'') \<noteq> None"
  by code_simp

lemma catch_closed_not_error_example: "catch_closed (NotErrorLike ''Target closed'') \<noteq> None"
  by code_simp

lemma example_frame_tree_handled:
  "\<exists>st1. handleFrameTree 2 (CDPSession ''main'') example_frame_tree (new_FrameManager (CDPSession ''main''))
      = Some (None, st1) \<and> fm_frames st1 = [(''F1'', 0), (''F2'', 1)]"
  by (simp add: example_frame_tree_def frame_defs store_defs Let_def)

theorem initialize_swallows_closed_errors_witness:
  "catch_closed (JSError ''Protocol error (Page.enable): Target closed.'') = None
   \<and> initialize 0 (CDPSession ''main'') (Inl (JSError ''Protocol error (Page.enable): Target closed.''))
        (Inr ()) (new_FrameManager (CDPSession ''main''))
       = Some (None, new_FrameManager (CDPSession ''main''))
   \<and> catch_closed (JSError ''Protocol error (Page.enable): Not allowed'') \<noteq> None
   \<and> initialize 0 (CDPSession ''main'') (Inl (JSError ''Protocol error (Page.enable): Not allowed''))
        (Inr ()) (new_FrameManager (CDPSession ''main''))
       = Some (Some (JSError ''Protocol error (Page.enable): Not allowed''), new_FrameManager (CDPSession ''main''))
   \<and> catch_closed (NotErrorLike ''Target closed'') \<noteq> None
   \<and> initialize 0 (CDPSession ''main'') (Inl (NotErrorLike ''Target closed''))
        (Inr ()) (new_FrameManager (CDPSession ''main''))
       = Some (Some (NotErrorLike ''Target closed''), new_FrameManager (CDPSession ''main''))
   \<and> state_ok (new_FrameManager (CDPSession ''main''))
   \<and> frame_next (new_FrameManager (CDPSession ''main'')) + tree_nodes example_frame_tree \<le> 2
   \<and> (\<exists>st1. handleFrameTree 2 (CDPSession ''main'') example_frame_tree (new_FrameManager (CDPSession ''main''))
          = Some (None, st1)
        \<and> initialize 2 (CDPSession ''main'') (Inr example_frame_tree)
            (Inl (JSError ''Protocol error (Page.enable): Target closed.'')) (new_FrameManager (CDPSession ''main''))
          = Some (None, st1))"
proof -
  let ?c = "CDPSession ''main''"
  let ?e1 = "JSError ''Protocol error (Page.enable): Target closed.''"
  let ?e2 = "JSError ''Protocol error (Page.enable): Not allowed''"
  have fuel: "state_ok (new_FrameManager ?c) \<and> frame_next (new_FrameManager ?c) + tree_nodes example_frame_tree \<le> 2"
    by (simp add: state_ok_new_FrameManager) (simp add: new_FrameManager_def example_frame_tree_def)
  note t1 = initialize_swallows_closed_errors
    [where e = ?e1 and n = 0 and client = ?c and started = "Inr ()" and st = "new_FrameManager ?c"]
  note t2 = initialize_swallows_closed_errors
    [where e = ?e2 and n = 0 and client = ?c and started = "Inr ()" and st = "new_FrameManager ?c"]
  note t3 = initialize_swallows_closed_errors
    [where e = ?e1 and n = 2 and client = ?c and st = "new_FrameManager ?c" and tree = example_frame_tree]
  from t1 catch_closed_swallows_example have a: "initialize 0 ?c (Inl ?e1) (Inr ()) (new_FrameManager ?c) = Some (None, new_FrameManager ?c)"
    by simp
  from t2 catch_closed_rethrows_example have b: "initialize 0 ?c (Inl ?e2) (Inr ()) (new_FrameManager ?c) = Some (Some ?e2, new_FrameManager ?c)"
    by simp
  note t4 = initialize_swallows_closed_errors
    [where e = "NotErrorLike ''Target closed''" and n = 0 and client = ?c and started = "Inr ()"
      and st = "new_FrameManager ?c"]
  from t4 catch_closed_not_error_example have b': "initialize 0 ?c (Inl (NotErrorLike ''Target closed'')) (Inr ()) (new_FrameManager ?c)
      = Some (Some (NotErrorLike ''Target closed''), new_FrameManager ?c)"
    by simp
  from t3 fuel obtain thrown st1 where h: "handleFrameTree 2 ?c example_frame_tree (new_FrameManager ?c) = Some (thrown, st1)"
    and i: "thrown = None \<longrightarrow> initialize 2 ?c (Inr example_frame_tree) (Inl ?e1) (new_FrameManager ?c)
        = Some (catch_closed ?e1, st1)"
    by blast
  from h example_frame_tree_handled have "thrown = None" by auto
  with h i catch_closed_swallows_example have c: "\<exists>st1. handleFrameTree 2 ?c example_frame_tree (new_FrameManager ?c) = Some (None, st1)
        \<and> initialize 2 ?c (Inr example_frame_tree) (Inl ?e1) (new_FrameManager ?c) = Some (None, st1)"
    by auto
  from catch_closed_swallows_example a catch_closed_rethrows_example b catch_closed_not_error_example b' fuel c show ?thesis by blast
qed

section \<open>Navigation\<close>

text \<open>
  Claim C7.  A rejection of \<^verbatim>\<open>Page.navigate\<close> is an error-like value (the transport
  rejects a command with an \<^verbatim>\<open>Error\<close>); \<^verbatim>\<open>navigate\<close> hands any other value on as it is,
  and the claim says nothing of such a value.  \<^verbatim>\<open>navigateFrame\<close> throws exactly when the
  navigate command is rejected or reports an \<^verbatim>\<open>errorText\<close>, or the watcher's
  timeout-or-termination promise settles one of the two races (a termination, or the
  deadline); otherwise it returns the watcher's response, which is the main-resource
  response, or \<^verbatim>\<open>null\<close> for \<^verbatim>\<open>about:blank\<close> and for a same-document hash change.  The value
  thrown is the rejection, the error made of the \<^verbatim>\<open>errorText\<close> and the url, or the
  watcher's error.  The watcher is disposed before the throw and before the return.
\<close>

theorem navigateFrame_outcomes:
  assumes "\<forall>e. sent = Inl e \<longrightarrow> isErrorLike e"
  shows "((\<exists>e. fst (navigateFrame url sent first second w) = Inl e) \<longleftrightarrow>
       (\<exists>e. sent = Inl e) \<or> (\<exists>t. sent = Inr (Some t) \<and> t \<noteq> [])
       \<or> (\<exists>s. first = WatcherSettles s) \<or> (\<exists>s. second = TimeoutOrTermination s))
   \<and> ((\<forall>e. fst (navigateFrame url sent first second w) \<noteq> Inl e) \<longrightarrow>
        fst (navigateFrame url sent first second w) = Inr (navigationResponse w))
   \<and> (navigationResponse w =
        (case watcher_navigation w of MainResource r \<Rightarrow> Some r | AboutBlank \<Rightarrow> None | SameDocumentHashChange \<Rightarrow> None))
   \<and> (first = NavigateSettles \<and> sent = Inl e \<longrightarrow> fst (navigateFrame url sent first second w) = Inl e)
   \<and> (first = NavigateSettles \<and> sent = Inr (Some t) \<and> t \<noteq> [] \<longrightarrow>
        fst (navigateFrame url sent first second w) = Inl (JSError (t @ '' at '' @ url)))
   \<and> (first = WatcherSettles s \<longrightarrow> fst (navigateFrame url sent first second w) = Inl (signal_error s))
   \<and> (first = NavigateSettles \<and> (sent = Inr None \<or> sent = Inr (Some [])) \<and> second = TimeoutOrTermination s \<longrightarrow>
        fst (navigateFrame url sent first second w) = Inl (signal_error s))
   \<and> snd (navigateFrame url sent first second w) = w\<lparr>watcher_disposed := True\<rparr>"
  using assms
  by (cases first; cases second; cases sent)
     (auto simp add: navigateFrame_def navigate_def navigationResponse_def dispose_def isErrorLike_def
        truthy_def Let_def split: thrown.splits option.splits navigation.splits)

theorem navigateFrame_outcomes_witness:
  "isErrorLike (JSError ''Protocol error (Page.navigate): Cannot navigate to invalid URL'')
   \<and> fst (navigateFrame ''nowhere'' (Inl (JSError ''Protocol error (Page.navigate): Cannot navigate to invalid URL''))
        NavigateSettles NewDocumentNavigation \<lparr>watcher_navigation = AboutBlank, watcher_disposed = False\<rparr>)
     = Inl (JSError ''Protocol error (Page.navigate): Cannot navigate to invalid URL'')
   \<and> snd (navigateFrame ''nowhere'' (Inl (JSError ''Protocol error (Page.navigate): Cannot navigate to invalid URL''))
        NavigateSettles NewDocumentNavigation \<lparr>watcher_navigation = AboutBlank, watcher_disposed = False\<rparr>)
     = \<lparr>watcher_navigation = AboutBlank, watcher_disposed = True\<rparr>
   \<and> fst (navigateFrame ''https://a.test'' (Inr (Some ''net::ERR_ABORTED'')) NavigateSettles NewDocumentNavigation
        \<lparr>watcher_navigation = AboutBlank, watcher_disposed = False\<rparr>)
     = Inl (JSError ''net::ERR_ABORTED at https://a.test'')
   \<and> snd (navigateFrame ''https://a.test'' (Inr (Some ''net::ERR_ABORTED'')) NavigateSettles NewDocumentNavigation
        \<lparr>watcher_navigation = AboutBlank, watcher_disposed = False\<rparr>)
     = \<lparr>watcher_navigation = AboutBlank, watcher_disposed = True\<rparr>
   \<and> fst (navigateFrame ''https://a.test'' (Inr None) (WatcherSettles (Timeout ''Navigation timeout exceeded''))
        NewDocumentNavigation \<lparr>watcher_navigation = AboutBlank, watcher_disposed = False\<rparr>)
     = Inl (JSError ''Navigation timeout exceeded'')
   \<and> fst (navigateFrame ''https://a.test'' (Inr None) NavigateSettles
        (TimeoutOrTermination (Terminated ''Navigating frame was detached''))
        \<lparr>watcher_navigation = AboutBlank, watcher_disposed = False\<rparr>)
     = Inl (JSError ''Navigating frame was detached'')
   \<and> fst (navigateFrame ''https://a.test'' (Inr None) NavigateSettles NewDocumentNavigation
        \<lparr>watcher_navigation = MainResource (HTTPResponse 0), watcher_disposed = False\<rparr>)
     = Inr (Some (HTTPResponse 0))
   \<and> snd (navigateFrame ''https://a.test'' (Inr None) NavigateSettles NewDocumentNavigation
        \<lparr>watcher_navigation = MainResource (HTTPResponse 0), watcher_disposed = False\<rparr>)
     = \<lparr>watcher_navigation = MainResource (HTTPResponse 0), watcher_disposed = True\<rparr>
   \<and> fst (navigateFrame ''about:blank'' (Inr None) NavigateSettles NewDocumentNavigation
        \<lparr>watcher_navigation = AboutBlank, watcher_disposed = False\<rparr>)
     = Inr None"
proof -
  let ?w = "\<lparr>watcher_navigation = AboutBlank, watcher_disposed = False\<rparr>"
  let ?w' = "\<lparr>watcher_navigation = MainResource (HTTPResponse 0), watcher_disposed = False\<rparr>"
  let ?r = "JSError ''Protocol error (Page.navigate): Cannot navigate to invalid URL''"
  have p: "isErrorLike ?r"
    by (simp add: isErrorLike_def)
  then have p0: "\<forall>e. (Inl ?r :: thrown + string option) = Inl e \<longrightarrow> isErrorLike e"
    by simp
  have p1: "\<forall>e. (Inr (Some ''net::ERR_ABORTED'') :: thrown + string option) = Inl e \<longrightarrow> isErrorLike e"
    by simp
  have p2: "\<forall>e. (Inr None :: thrown + string option) = Inl e \<longrightarrow> isErrorLike e"
    by simp
  note z = navigateFrame_outcomes [OF p0, where url = "''nowhere''"
      and first = NavigateSettles and second = NewDocumentNavigation and w = ?w and e = ?r]
  note a = navigateFrame_outcomes [OF p1, where url = "''https://a.test''"
      and first = NavigateSettles and second = NewDocumentNavigation and w = ?w and t = "''net::ERR_ABORTED''"]
  note b = navigateFrame_outcomes [OF p2, where url = "''https://a.test''"
      and first = "WatcherSettles (Timeout ''Navigation timeout exceeded'')" and second = NewDocumentNavigation
      and w = ?w and s = "Timeout ''Navigation timeout exceeded''"]
  note c = navigateFrame_outcomes [OF p2, where url = "''https://a.test''"
      and first = NavigateSettles and second = "TimeoutOrTermination (Terminated ''Navigating frame was detached'')"
      and w = ?w and s = "Terminated ''Navigating frame was detached''"]
  note d = navigateFrame_outcomes [OF p2, where url = "''https://a.test''"
      and first = NavigateSettles and second = NewDocumentNavigation and w = ?w']
  note e = navigateFrame_outcomes [OF p2, where url = "''about:blank''"
      and first = NavigateSettles and second = NewDocumentNavigation and w = ?w]
  from z have 8: "fst (navigateFrame ''nowhere'' (Inl ?r) NavigateSettles NewDocumentNavigation ?w) = Inl ?r"
    and 9: "snd (navigateFrame ''nowhere'' (Inl ?r) NavigateSettles NewDocumentNavigation ?w)
     = \<lparr>watcher_navigation = AboutBlank, watcher_disposed = True\<rparr>"
    by simp_all
  from a have 1: "fst (navigateFrame ''https://a.test'' (Inr (Some ''net::ERR_ABORTED'')) NavigateSettles NewDocumentNavigation ?w)
     = Inl (JSError ''net::ERR_ABORTED at https://a.test'')"
    and 2: "snd (navigateFrame ''https://a.test'' (Inr (Some ''net::ERR_ABORTED'')) NavigateSettles NewDocumentNavigation ?w)
     = \<lparr>watcher_navigation = AboutBlank, watcher_disposed = True\<rparr>"
    by simp_all
  from b have 3: "fst (navigateFrame ''https://a.test'' (Inr None) (WatcherSettles (Timeout ''Navigation timeout exceeded''))
        NewDocumentNavigation ?w) = Inl (JSError ''Navigation timeout exceeded'')"
    by (simp add: signal_error_def)
  from c have 4: "fst (navigateFrame ''https://a.test'' (Inr None) NavigateSettles
        (TimeoutOrTermination (Terminated ''Navigating frame was detached'')) ?w)
     = Inl (JSError ''Navigating frame was detached'')"
    by (simp add: signal_error_def)
  from d have 5: "fst (navigateFrame ''https://a.test'' (Inr None) NavigateSettles NewDocumentNavigation ?w')
     = Inr (Some (HTTPResponse 0))"
    and 7: "snd (navigateFrame ''https://a.test'' (Inr None) NavigateSettles NewDocumentNavigation ?w')
     = \<lparr>watcher_navigation = MainResource (HTTPResponse 0), watcher_disposed = True\<rparr>"
    by auto
  from e have 6: "fst (navigateFrame ''about:blank'' (Inr None) NavigateSettles NewDocumentNavigation ?w) = Inr None"
    by auto
  from p 1 2 3 4 5 6 7 8 9 show ?thesis by blast
qed

end
